theory Spec2Isabelle
  imports Main "HOL-Library.Word"
begin

section \<open>Data model of the scanner package\<close>

text \<open>
  Go strings are byte sequences: \<open>len\<close> counts bytes and slicing cuts bytes, so a Go
  \<open>string\<close> is a \<open>char list\<close> here (an Isabelle \<open>char\<close> is one byte). Go's \<open>int\<close> is
  the 64-bit two's complement integer of the usual targets: \<open>64 word\<close>, read with
  \<open>sint\<close>; \<open>+\<close> wraps as Go's does.
\<close>

type_synonym go_int = "64 word"

text \<open>\<open>rules.go\<close>: \<open>type Finding struct\<close>.\<close>

record Finding =
  RuleID :: string
  RuleName :: string
  FilePath :: string
  LineNum :: go_int
  Content :: string
  Match :: string
  StartPos :: nat
  EndPos :: nat
  Description :: string
  Advice :: string


text \<open>\<open>differ.go\<close>: \<open>type DiffLine struct\<close>.\<close>

record DiffLine =
  FilePath :: string
  LineNum :: go_int
  Content :: string

section \<open>The diff extractor (\<open>differ.go\<close>)\<close>

subsection \<open>Library functions it calls\<close>

text \<open>\<open>strings.HasPrefix\<close>: \<open>len(s) >= len(prefix) && s[:len(prefix)] == prefix\<close>.\<close>

definition HasPrefix :: "string \<Rightarrow> string \<Rightarrow> bool" where
  "HasPrefix s prefix = (length prefix \<le> length s \<and> take (length prefix) s = prefix)"

definition isDigit :: "char \<Rightarrow> bool" where
  "isDigit c = (48 \<le> (of_char c :: nat) \<and> (of_char c :: nat) \<le> 57)"

definition digitsValue :: "string \<Rightarrow> nat" where
  "digitsValue ds = foldl (\<lambda>n c. n * 10 + ((of_char c :: nat) - 48)) 0 ds"

datatype error =
    ErrSyntax      \<comment> \<open>\<open>strconv.ErrSyntax\<close>, wrapped as "failed to parse line number"\<close>
  | ErrRange       \<comment> \<open>\<open>strconv.ErrRange\<close>, wrapped as "failed to parse line number"\<close>
  | ErrTooLong     \<comment> \<open>\<open>bufio.ErrTooLong\<close>, wrapped as "error reading diff output"\<close>
  | ErrUnterminatedClass  \<comment> \<open>"invalid glob pattern: unterminated character class"\<close>
  | ErrCompile     \<comment> \<open>"failed to compile pattern"\<close>

text \<open>
  \<open>strconv.Atoi\<close> in base 10 on a 64-bit \<open>int\<close>: an optional sign, then one or more
  decimal digits; \<open>ErrSyntax\<close> on anything else, \<open>ErrRange\<close> when the value does not
  fit (above \<open>2^63 - 1\<close>, or below \<open>-2^63\<close>).
\<close>

definition Atoi :: "string \<Rightarrow> error + go_int" where
  "Atoi s =
     (let neg = (s \<noteq> [] \<and> hd s = CHR ''-'');
          ds = (if s \<noteq> [] \<and> (hd s = CHR ''+'' \<or> hd s = CHR ''-'') then tl s else s)
      in if ds = [] \<or> \<not> list_all isDigit ds then Inl ErrSyntax
         else if neg then
           (if digitsValue ds \<le> 2 ^ 63 then Inr (- word_of_nat (digitsValue ds)) else Inl ErrRange)
         else
           (if digitsValue ds < 2 ^ 63 then Inr (word_of_nat (digitsValue ds)) else Inl ErrRange))"

text \<open>
  \<open>bufio.Scanner\<close> with the default split function \<open>bufio.ScanLines\<close> and the default
  buffer: the text is cut at every newline byte, a text that does not end in a newline
  gives a last line, one trailing carriage return is dropped from each line
  (\<open>dropCR\<close>), and a line of \<open>MaxScanTokenSize\<close> bytes or more does not fit the
  buffer: the scan stops there with \<open>ErrTooLong\<close>, after the lines before it have
  been delivered. \<open>ScanLines\<close> returns the lines delivered and whether the scan
  stopped so.
\<close>

definition MaxScanTokenSize :: nat where
  "MaxScanTokenSize = 64 * 1024"

definition dropCR :: "string \<Rightarrow> string" where
  "dropCR d = (if d \<noteq> [] \<and> last d = CHR 0x0D then butlast d else d)"

function ScanLines :: "string \<Rightarrow> string list \<times> bool" where
  "ScanLines s =
     (if s = [] then ([], False)
      else
        (let l = takeWhile (\<lambda>c. c \<noteq> CHR 0x0A) s;
             r = dropWhile (\<lambda>c. c \<noteq> CHR 0x0A) s
         in if MaxScanTokenSize \<le> length l then ([], True)
            else (case ScanLines (drop 1 r) of (ts, e) \<Rightarrow> (dropCR l # ts, e))))"
  by pat_completeness auto
termination
proof (relation "measure length")
  show "wf (measure length)" by simp
next
  fix s :: string and l r
  assume "s \<noteq> []" and r: "r = dropWhile (\<lambda>c. c \<noteq> CHR 0x0A) s"
  have "length (drop 1 r) < length s"
  proof (cases r)
    case Nil
    then show ?thesis using \<open>s \<noteq> []\<close> by simp
  next
    case (Cons a list)
    have "length r \<le> length s" unfolding r by (rule length_dropWhile_le)
    then show ?thesis using Cons by simp
  qed
  then show "(drop 1 r, s) \<in> measure length" by simp
qed

declare ScanLines.simps [simp del]

subsection \<open>The two header patterns\<close>

text \<open>
  \<open>fileHeaderRegex = ^\+\+\+ b/(.+)$\<close>, applied with \<open>FindStringSubmatch\<close>: the line is
  \<open>+++ b/\<close> followed by at least one character, none of them a newline (\<open>.\<close> does not
  match one); the submatch is the rest of the line. \<open>fileHeader\<close> returns
  \<open>matches[1]\<close>, and \<open>None\<close> for \<open>matches == nil\<close>.
\<close>

definition fileHeader :: "string \<Rightarrow> string option" where
  "fileHeader line =
     (if HasPrefix line ''+++ b/'' \<and> drop 6 line \<noteq> [] \<and> CHR 0x0A \<notin> set (drop 6 line)
      then Some (drop 6 line) else None)"

text \<open>
  \<open>hunkHeaderRegex = ^@@ -\d+(?:,\d+)? \+(\d+)(?:,\d+)? @@\<close>, applied with
  \<open>FindStringSubmatch\<close>; it is anchored at the start of the line only. \<open>\d+\<close> is
  greedy, and what follows a run of digits in the pattern is never a digit, so each
  run is taken whole. \<open>optCommaDigits\<close> is \<open>(?:,\d+)?\<close>; \<open>hunkHeader\<close> returns
  \<open>matches[1]\<close>, the digits of the new start.
\<close>

definition optCommaDigits :: "string \<Rightarrow> string" where
  "optCommaDigits r =
     (if HasPrefix r '','' \<and> takeWhile isDigit (drop 1 r) \<noteq> []
      then dropWhile isDigit (drop 1 r) else r)"

definition hunkHeader :: "string \<Rightarrow> string option" where
  "hunkHeader line =
     (if \<not> HasPrefix line ''@@ -'' then None
      else
        (let r1 = drop 4 line;
             oldStart = takeWhile isDigit r1;
             r2 = optCommaDigits (dropWhile isDigit r1)
         in if oldStart = [] \<or> \<not> HasPrefix r2 '' +'' then None
            else
              (let r3 = drop 2 r2;
                   newStart = takeWhile isDigit r3;
                   r4 = optCommaDigits (dropWhile isDigit r3)
               in if newStart = [] \<or> \<not> HasPrefix r4 '' @@'' then None
                  else Some newStart)))"

subsection \<open>\<open>parseDiff\<close>\<close>

text \<open>
  The local variables of \<open>parseDiff\<close> that live across the loop: \<open>lines\<close>,
  \<open>currentFile\<close> and \<open>currentLineNum\<close>, zero-valued at the start.
\<close>

record parse_state =
  lines :: "DiffLine list"
  currentFile :: string
  currentLineNum :: go_int

definition initial_state :: parse_state where
  "initial_state = \<lparr>lines = [], currentFile = [], currentLineNum = 0\<rparr>"

text \<open>One iteration of \<open>for scanner.Scan()\<close>, on the line \<open>scanner.Text()\<close>.\<close>

definition parse_line :: "parse_state \<Rightarrow> string \<Rightarrow> error + parse_state" where
  "parse_line st line =
     (case fileHeader line of
        Some path \<Rightarrow> Inr (st\<lparr>currentFile := path\<rparr>)
      | None \<Rightarrow>
        (case hunkHeader line of
           Some digits \<Rightarrow>
             (case Atoi digits of
                Inl e \<Rightarrow> Inl e
              | Inr lineNum \<Rightarrow> Inr (st\<lparr>currentLineNum := lineNum\<rparr>))
         | None \<Rightarrow>
             if HasPrefix line ''+'' \<and> \<not> HasPrefix line ''+++'' then
               Inr (st\<lparr>lines := lines st @
                        [\<lparr>FilePath = currentFile st, LineNum = currentLineNum st,
                          Content = drop 1 line\<rparr>],
                      currentLineNum := currentLineNum st + 1\<rparr>)
             else if HasPrefix line '' '' then
               Inr (st\<lparr>currentLineNum := currentLineNum st + 1\<rparr>)
             else Inr st))"

fun parse_lines :: "parse_state \<Rightarrow> string list \<Rightarrow> error + parse_state" where
  "parse_lines st [] = Inr st"
| "parse_lines st (line # rest) =
     (case parse_line st line of Inl e \<Rightarrow> Inl e | Inr st' \<Rightarrow> parse_lines st' rest)"

text \<open>
  \<open>func (gd *GitDiffer) parseDiff(diffOutput string) ([]DiffLine, error)\<close>: an error
  in a hunk header returns at once; \<open>scanner.Err()\<close> is looked at after the loop.
\<close>

definition parseDiff :: "string \<Rightarrow> error + DiffLine list" where
  "parseDiff diffOutput =
     (case ScanLines diffOutput of
        (toks, tooLong) \<Rightarrow>
          (case parse_lines initial_state toks of
             Inl e \<Rightarrow> Inl e
           | Inr st \<Rightarrow> if tooLong then Inl ErrTooLong else Inr (lines st)))"

text \<open>
  The two conditions of the \<open>if\<close> chain at the end of the loop body: a line the loop
  emits (\<open>strings.HasPrefix(line, "+") && !strings.HasPrefix(line, "+++")\<close>) and a
  context line (\<open>strings.HasPrefix(line, " ")\<close>). Both advance the counter.
\<close>

definition is_added :: "string \<Rightarrow> bool" where
  "is_added line = (HasPrefix line ''+'' \<and> \<not> HasPrefix line ''+++'')"

definition is_context :: "string \<Rightarrow> bool" where
  "is_context line = HasPrefix line '' ''"

definition advances :: "string \<Rightarrow> bool" where
  "advances line = (is_added line \<or> is_context line)"

section \<open>Go's \<open>regexp\<close> package, as far as the scanner uses it\<close>

text \<open>
  \<open>rules.go\<close> and \<open>ignore.go\<close> hand pattern texts to \<open>regexp.Compile\<close> and call
  \<open>MatchString\<close>, \<open>FindAllStringIndex\<close> and \<open>FindAllStringSubmatch\<close> on the result.
  The package is Go's standard library, not code of this repository; this section
  models it from its documentation (\<open>regexp\<close>, \<open>regexp/syntax\<close>, \<open>unicode/utf8\<close>):
  \<^item> a compiled pattern is a syntax tree \<open>re\<close>; capture groups are not recorded (the
    scanner reads only the whole match);
  \<^item> matching is on runes: \<open>decodeRune\<close> is \<open>utf8.DecodeRuneInString\<close>, which gives an
    invalid byte the rune \<open>RuneError\<close> and width 1; positions are byte offsets;
  \<^item> the match chosen is the leftmost one and, at that start, the one a backtracking
    search finds first: \<open>ends r p\<close> lists the positions where a match of \<open>r\<close> that starts
    at \<open>p\<close> can end, in that order of preference (alternatives left to right,
    repetitions greedy);
  \<^item> \<open>Compile\<close> reads the syntax that the patterns of \<open>rules.go\<close> and the output of
    \<open>globToRegex\<close> use: literals, \<open>.\<close>, \<open>^\<close>, \<open>$\<close>, bracket classes with ranges, negation,
    POSIX classes \<open>[:name:]\<close> and escapes, \<open>\d \s \w \D \S \W\<close>, escaped punctuation and
    \<open>\a \f \n \r \t \v\<close>, groups \<open>(...)\<close> and \<open>(?:...)\<close>, the flag \<open>(?i)\<close>, \<open>|\<close>, and the
    greedy repetitions \<open>* + ? {n} {n,} {n,m}\<close>. The other constructs of RE2 syntax
    (non-greedy repetition, Unicode classes \<open>\p\<close>, \<open>\b\<close>, \<open>\A\<close>, \<open>\z\<close>, \<open>\Q\<close>, octal and
    hexadecimal escapes, named groups, other flags, case folding of runes beyond
    ASCII) are outside the model, and so are Go's limits on the size of a compiled
    program: \<open>Compile\<close> answers a pattern that uses them with \<open>ErrCompile\<close>, as it
    does a syntax error. No theorem below rests on \<open>Compile\<close> failing for a
    particular pattern.
\<close>

subsection \<open>Runes\<close>

definition RuneError :: nat where
  "RuneError = 0xFFFD"

definition decodeRune :: "string \<Rightarrow> nat \<times> nat" where
  "decodeRune s =
     (case s of
        [] \<Rightarrow> (RuneError, 0)
      | c0 # _ \<Rightarrow>
        (let b0 = (of_char c0 :: nat) in
         if b0 < 0x80 then (b0, 1)
         else if b0 < 0xC2 \<or> 0xF4 < b0 then (RuneError, 1)
         else
           (let sz = (if b0 < 0xE0 then 2 else if b0 < 0xF0 then 3 else (4::nat));
                lo = (if b0 = 0xE0 then 0xA0 else if b0 = 0xF0 then 0x90 else (0x80::nat));
                hi = (if b0 = 0xED then 0x9F else if b0 = 0xF4 then 0x8F else (0xBF::nat))
            in if length s < sz then (RuneError, 1)
               else
                 (let b1 = (of_char (s ! 1) :: nat) in
                  if b1 < lo \<or> hi < b1 then (RuneError, 1)
                  else if sz = 2 then ((b0 mod 32) * 64 + b1 mod 64, 2)
                  else
                    (let b2 = (of_char (s ! 2) :: nat) in
                     if b2 < 0x80 \<or> 0xBF < b2 then (RuneError, 1)
                     else if sz = 3 then ((b0 mod 16) * 4096 + (b1 mod 64) * 64 + b2 mod 64, 3)
                     else
                       (let b3 = (of_char (s ! 3) :: nat) in
                        if b3 < 0x80 \<or> 0xBF < b3 then (RuneError, 1)
                        else ((b0 mod 8) * 262144 + (b1 mod 64) * 4096 + (b2 mod 64) * 64
                              + b3 mod 64, 4)))))))"

subsection \<open>Syntax trees and matching\<close>

text \<open>
  \<open>Cls neg ranges\<close> is one rune inside (or, when \<open>neg\<close>, outside) the ranges; \<open>Bol\<close>
  and \<open>Eol\<close> are \<open>^\<close> and \<open>$\<close> without the multi-line flag: the start and the end of the
  text. A position is a byte offset together with the text that remains there.
\<close>

datatype re =
    Empty
  | Cls bool "(nat \<times> nat) list"
  | Bol
  | Eol
  | Cat re re
  | Alt re re
  | Star re

definition in_class :: "bool \<Rightarrow> (nat \<times> nat) list \<Rightarrow> nat \<Rightarrow> bool" where
  "in_class neg ranges c = (neg \<noteq> list_ex (\<lambda>(lo, hi). lo \<le> c \<and> c \<le> hi) ranges)"

type_synonym pos = "nat \<times> string"

fun star :: "(pos \<Rightarrow> pos list) \<Rightarrow> nat \<Rightarrow> pos \<Rightarrow> pos list" where
  "star f 0 p = [p]"
| "star f (Suc n) p = concat (map (star f n) (filter (\<lambda>q. fst p < fst q) (f p))) @ [p]"

primrec ends :: "re \<Rightarrow> pos \<Rightarrow> pos list" where
  "ends Empty p = [p]"
| "ends (Cls neg ranges) p =
     (if snd p = [] then []
      else if in_class neg ranges (fst (decodeRune (snd p)))
           then [(fst p + snd (decodeRune (snd p)), drop (snd (decodeRune (snd p))) (snd p))]
           else [])"
| "ends Bol p = (if fst p = 0 then [p] else [])"
| "ends Eol p = (if snd p = [] then [p] else [])"
| "ends (Cat a b) p = concat (map (ends b) (ends a p))"
| "ends (Alt a b) p = ends a p @ ends b p"
| "ends (Star a) p = star (ends a) (length (snd p)) p"

text \<open>
  The unanchored search of \<open>regexp\<close>: the first start position, going rune by rune,
  where the pattern matches; \<open>k\<close> counts the bytes of the current rune still to skip.
  The result is the start and the end of the match.
\<close>

fun search :: "re \<Rightarrow> nat \<Rightarrow> string \<Rightarrow> nat \<Rightarrow> (nat \<times> nat) option" where
  "search r i [] k = (if k = 0 then (case ends r (i, []) of [] \<Rightarrow> None | q # _ \<Rightarrow> Some (i, fst q)) else None)"
| "search r i (c # cs) k =
     (if 0 < k then search r (i + 1) cs (k - 1)
      else (case ends r (i, c # cs) of
              q # _ \<Rightarrow> Some (i, fst q)
            | [] \<Rightarrow> search r (i + 1) cs (snd (decodeRune (c # cs)) - 1)))"

subsection \<open>\<open>regexp.Compile\<close>: tokens\<close>

datatype token =
    TLit nat
  | TCls bool "(nat \<times> nat) list"
  | TDot | TBol | TEol
  | TOpen | TFlagI | TClose | TBar
  | TStar | TPlus | TQuest
  | TRep nat "nat option"

definition isAlnum :: "nat \<Rightarrow> bool" where
  "isAlnum c = (48 \<le> c \<and> c \<le> 57 \<or> 65 \<le> c \<and> c \<le> 90 \<or> 97 \<le> c \<and> c \<le> 122)"

definition perl_class :: "char \<Rightarrow> (bool \<times> (nat \<times> nat) list) option" where
  "perl_class d =
     (if d = CHR ''d'' then Some (False, [(48, 57)])
      else if d = CHR ''D'' then Some (True, [(48, 57)])
      else if d = CHR ''s'' then Some (False, [(9, 10), (12, 13), (32, 32)])
      else if d = CHR ''S'' then Some (True, [(9, 10), (12, 13), (32, 32)])
      else if d = CHR ''w'' then Some (False, [(48, 57), (65, 90), (95, 95), (97, 122)])
      else if d = CHR ''W'' then Some (True, [(48, 57), (65, 90), (95, 95), (97, 122)])
      else None)"

definition escape_char :: "char \<Rightarrow> nat option" where
  "escape_char d =
     (if d = CHR ''a'' then Some 7
      else if d = CHR ''f'' then Some 12
      else if d = CHR ''n'' then Some 10
      else if d = CHR ''r'' then Some 13
      else if d = CHR ''t'' then Some 9
      else if d = CHR ''v'' then Some 11
      else if (of_char d :: nat) < 128 \<and> \<not> isAlnum (of_char d) then Some (of_char d)
      else None)"

definition class_char :: "string \<Rightarrow> (nat \<times> string) option" where
  "class_char s =
     (case s of
        [] \<Rightarrow> None
      | c # s' \<Rightarrow>
          if c = CHR 0x5C then
            (case s' of [] \<Rightarrow> None
             | d # s'' \<Rightarrow> (case escape_char d of None \<Rightarrow> None | Some r \<Rightarrow> Some (r, s'')))
          else
            (case decodeRune s of (r, w) \<Rightarrow>
               if r = RuneError \<and> w = 1 then None else Some (r, drop w s)))"

fun contains_colon_bracket :: "string \<Rightarrow> bool" where
  "contains_colon_bracket (a # b # s) = (a = CHR '':'' \<and> b = CHR '']'' \<or> contains_colon_bracket (b # s))"
| "contains_colon_bracket _ = False"

text \<open>
  The POSIX classes \<open>[:name:]\<close> and \<open>[:^name:]\<close> of \<open>regexp/syntax\<close>, by the text
  between \<open>[:\<close> and \<open>:]\<close>. \<open>negate_from\<close> is the complement, up to the last rune, of
  ranges given in ascending order.
\<close>

definition posix_class :: "string \<Rightarrow> (nat \<times> nat) list option" where
  "posix_class name =
     (if name = ''alnum'' then Some [(48, 57), (65, 90), (97, 122)]
      else if name = ''alpha'' then Some [(65, 90), (97, 122)]
      else if name = ''ascii'' then Some [(0, 127)]
      else if name = ''blank'' then Some [(9, 9), (32, 32)]
      else if name = ''cntrl'' then Some [(0, 31), (127, 127)]
      else if name = ''digit'' then Some [(48, 57)]
      else if name = ''graph'' then Some [(33, 126)]
      else if name = ''lower'' then Some [(97, 122)]
      else if name = ''print'' then Some [(32, 126)]
      else if name = ''punct'' then Some [(33, 47), (58, 64), (91, 96), (123, 126)]
      else if name = ''space'' then Some [(9, 13), (32, 32)]
      else if name = ''upper'' then Some [(65, 90)]
      else if name = ''word'' then Some [(48, 57), (65, 90), (95, 95), (97, 122)]
      else if name = ''xdigit'' then Some [(48, 57), (65, 70), (97, 102)]
      else None)"

fun negate_from :: "nat \<Rightarrow> (nat \<times> nat) list \<Rightarrow> (nat \<times> nat) list" where
  "negate_from next [] = (if next \<le> 0x10FFFF then [(next, 0x10FFFF)] else [])"
| "negate_from next ((lo, hi) # rs) =
     (if next < lo then [(next, lo - 1)] else []) @ negate_from (hi + 1) rs"

fun name_upto :: "string \<Rightarrow> string" where
  "name_upto (a # b # s) = (if a = CHR '':'' \<and> b = CHR '']'' then [] else a # name_upto (b # s))"
| "name_upto s = []"

definition named_class :: "string \<Rightarrow> ((nat \<times> nat) list \<times> string) option" where
  "named_class s =
     (let name = name_upto (drop 2 s); rest = drop (length name + 4) s
      in if take 1 name = ''^'' then
           (case posix_class (drop 1 name) of
              None \<Rightarrow> None
            | Some rs \<Rightarrow> Some (negate_from 0 rs, rest))
         else
           (case posix_class name of None \<Rightarrow> None | Some rs \<Rightarrow> Some (rs, rest)))"

text \<open>
  One item of a bracket class, as \<open>parseClass\<close> reads it: a POSIX class when the text
  starts with \<open>[:\<close> and \<open>:]\<close> follows later (an unknown name is an error), a Perl class
  \<open>\d \s \w \D \S \W\<close>, or a single character or a range \<open>lo-hi\<close>.
\<close>

definition class_item :: "string \<Rightarrow> ((nat \<times> nat) list \<times> string) option" where
  "class_item s =
     (if take 2 s = ''[:'' \<and> contains_colon_bracket (drop 2 s) then named_class s
      else if take 1 s = [CHR 0x5C] \<and> drop 1 s \<noteq> [] \<and> hd (drop 1 s) \<in> {CHR ''p'', CHR ''P''} then None
      else if take 1 s = [CHR 0x5C] \<and> drop 1 s \<noteq> [] \<and> perl_class (hd (drop 1 s)) \<noteq> None then
        (case perl_class (hd (drop 1 s)) of
           Some (False, rs) \<Rightarrow> Some (rs, drop 2 s)
         | Some (True, rs) \<Rightarrow> Some (negate_from 0 rs, drop 2 s)
         | None \<Rightarrow> None)
      else
        (case class_char s of
           None \<Rightarrow> None
         | Some (lo, t) \<Rightarrow>
             if 2 \<le> length t \<and> t ! 0 = CHR ''-'' \<and> t ! 1 \<noteq> CHR '']'' then
               (case class_char (drop 1 t) of
                  None \<Rightarrow> None
                | Some (hi, t') \<Rightarrow> if hi < lo then None else Some ([(lo, hi)], t'))
             else Some ([(lo, lo)], t)))"

fun class_items :: "nat \<Rightarrow> bool \<Rightarrow> string \<Rightarrow> ((nat \<times> nat) list \<times> string) option" where
  "class_items 0 first s = None"
| "class_items (Suc n) first s =
     (case s of
        [] \<Rightarrow> None
      | c # s' \<Rightarrow>
          if c = CHR '']'' \<and> \<not> first then Some ([], s')
          else
            (case class_item s of
               None \<Rightarrow> None
             | Some (rs, rest) \<Rightarrow>
                 (case class_items n False rest of
                    None \<Rightarrow> None
                  | Some (rss, rest') \<Rightarrow> Some (rs @ rss, rest'))))"

definition lex_class :: "string \<Rightarrow> (token \<times> string) option" where
  "lex_class s =
     (let neg = (take 1 s = ''^''); t = (if neg then drop 1 s else s)
      in case class_items (Suc (length t)) True t of
           None \<Rightarrow> None
         | Some (rs, rest) \<Rightarrow> Some (TCls neg rs, rest))"

definition parseInt :: "string \<Rightarrow> (nat \<times> string) option" where
  "parseInt s =
     (if s = [] \<or> \<not> isDigit (hd s) then None
      else if 2 \<le> length s \<and> s ! 0 = CHR ''0'' \<and> isDigit (s ! 1) then None
      else Some (digitsValue (takeWhile isDigit s), dropWhile isDigit s))"

definition parseRepeat :: "string \<Rightarrow> (nat \<times> nat option \<times> string) option" where
  "parseRepeat s =
     (case parseInt s of
        None \<Rightarrow> None
      | Some (mn, s1) \<Rightarrow>
          if s1 = [] then None
          else if hd s1 \<noteq> CHR '','' then
            (if hd s1 = CHR ''}'' then Some (mn, Some mn, tl s1) else None)
          else
            (let s2 = tl s1 in
             if s2 = [] then None
             else if hd s2 = CHR ''}'' then Some (mn, None, tl s2)
             else
               (case parseInt s2 of
                  None \<Rightarrow> None
                | Some (mx, s3) \<Rightarrow>
                    if s3 \<noteq> [] \<and> hd s3 = CHR ''}'' then Some (mn, Some mx, tl s3) else None)))"

definition lex_one :: "char \<Rightarrow> string \<Rightarrow> (token \<times> string) option" where
  "lex_one c s =
     (if c = CHR ''('' then
        (if take 2 s = ''?:'' then Some (TOpen, drop 2 s)
         else if take 3 s = ''?i)'' then Some (TFlagI, drop 3 s)
         else if take 1 s = ''?'' then None
         else Some (TOpen, s))
      else if c = CHR '')'' then Some (TClose, s)
      else if c = CHR ''|'' then Some (TBar, s)
      else if c = CHR ''*'' then Some (TStar, s)
      else if c = CHR ''+'' then Some (TPlus, s)
      else if c = CHR ''?'' then Some (TQuest, s)
      else if c = CHR ''.'' then Some (TDot, s)
      else if c = CHR ''^'' then Some (TBol, s)
      else if c = CHR ''$'' then Some (TEol, s)
      else if c = CHR ''{'' then
        (case parseRepeat s of
           None \<Rightarrow> Some (TLit 123, s)
         | Some (mn, mx, rest) \<Rightarrow>
             if 1000 < mn \<or> (case mx of None \<Rightarrow> False | Some m \<Rightarrow> 1000 < m \<or> m < mn) then None
             else Some (TRep mn mx, rest))
      else if c = CHR ''['' then lex_class s
      else if c = CHR 0x5C then
        (case s of
           [] \<Rightarrow> None
         | d # s' \<Rightarrow>
             (case perl_class d of
                Some (neg, rs) \<Rightarrow> Some (TCls neg rs, s')
              | None \<Rightarrow>
                  (case escape_char d of None \<Rightarrow> None | Some r \<Rightarrow> Some (TLit r, s'))))
      else
        (case decodeRune (c # s) of (r, w) \<Rightarrow>
           if r = RuneError \<and> w = 1 then None else Some (TLit r, drop w (c # s))))"

fun lex :: "nat \<Rightarrow> string \<Rightarrow> token list option" where
  "lex n [] = Some []"
| "lex 0 (c # s) = None"
| "lex (Suc n) (c # s) =
     (case lex_one c s of
        None \<Rightarrow> None
      | Some (t, rest) \<Rightarrow> (case lex n rest of None \<Rightarrow> None | Some ts \<Rightarrow> Some (t # ts)))"

subsection \<open>\<open>regexp.Compile\<close>: the tree\<close>

text \<open>
  Under \<open>(?i)\<close> a class takes in the case variants of its ASCII letters, and with
  \<open>k\<close> and \<open>s\<close> the Kelvin sign and the long s, as Go's simple folding does.
  A counted repetition is unrolled; a repetition operator that follows another one
  is an error. \<open>parse_tokens\<close> keeps a stack of the groups that are open.
\<close>

definition fold_range :: "nat \<times> nat \<Rightarrow> (nat \<times> nat) list" where
  "fold_range r =
     (case r of (lo, hi) \<Rightarrow>
        [(lo, hi)]
        @ (if max lo 97 \<le> min hi 122 then [(max lo 97 - 32, min hi 122 - 32)] else [])
        @ (if max lo 65 \<le> min hi 90 then [(max lo 65 + 32, min hi 90 + 32)] else [])
        @ (if lo \<le> 107 \<and> 107 \<le> hi \<or> lo \<le> 75 \<and> 75 \<le> hi then [(0x212A, 0x212A)] else [])
        @ (if lo \<le> 115 \<and> 115 \<le> hi \<or> lo \<le> 83 \<and> 83 \<le> hi then [(0x17F, 0x17F)] else []))"

definition mk_class :: "bool \<Rightarrow> bool \<Rightarrow> (nat \<times> nat) list \<Rightarrow> re option" where
  "mk_class ci neg rs =
     (if \<not> ci then Some (Cls neg rs)
      else if list_ex (\<lambda>r. 128 \<le> snd r) rs then None
      else Some (Cls neg (concat (map fold_range rs))))"

fun cat_list :: "re list \<Rightarrow> re" where
  "cat_list [] = Empty"
| "cat_list [x] = x"
| "cat_list (x # xs) = Cat x (cat_list xs)"

fun alt_list :: "re list \<Rightarrow> re" where
  "alt_list [] = Empty"
| "alt_list [x] = x"
| "alt_list (x # xs) = Alt x (alt_list xs)"

definition mk_alt :: "re list \<Rightarrow> re list \<Rightarrow> re" where
  "mk_alt alts seq = alt_list (rev (cat_list (rev seq) # alts))"

fun pow :: "re \<Rightarrow> nat \<Rightarrow> re" where
  "pow x 0 = Empty"
| "pow x (Suc n) = Cat x (pow x n)"

fun opt_nest :: "re \<Rightarrow> nat \<Rightarrow> re" where
  "opt_nest x 0 = Empty"
| "opt_nest x (Suc n) = Alt (Cat x (opt_nest x n)) Empty"

definition repeat_re :: "re \<Rightarrow> token \<Rightarrow> re" where
  "repeat_re x t =
     (case t of
        TStar \<Rightarrow> Star x
      | TPlus \<Rightarrow> Cat x (Star x)
      | TQuest \<Rightarrow> Alt x Empty
      | TRep mn None \<Rightarrow> Cat (pow x mn) (Star x)
      | TRep mn (Some mx) \<Rightarrow> Cat (pow x mn) (opt_nest x (mx - mn))
      | _ \<Rightarrow> x)"

type_synonym frame = "re list \<times> re list \<times> bool"

fun parse_tokens ::
  "frame list \<Rightarrow> re list \<Rightarrow> re list \<Rightarrow> bool \<Rightarrow> bool \<Rightarrow> token list \<Rightarrow> re option" where
  "parse_tokens st alts seq ci lastRepeat [] = (if st = [] then Some (mk_alt alts seq) else None)"
| "parse_tokens st alts seq ci lastRepeat (TLit c # ts) =
     (case mk_class ci False [(c, c)] of
        None \<Rightarrow> None
      | Some x \<Rightarrow> parse_tokens st alts (x # seq) ci False ts)"
| "parse_tokens st alts seq ci lastRepeat (TCls neg rs # ts) =
     (case mk_class ci neg rs of
        None \<Rightarrow> None
      | Some x \<Rightarrow> parse_tokens st alts (x # seq) ci False ts)"
| "parse_tokens st alts seq ci lastRepeat (TDot # ts) =
     parse_tokens st alts (Cls True [(10, 10)] # seq) ci False ts"
| "parse_tokens st alts seq ci lastRepeat (TBol # ts) = parse_tokens st alts (Bol # seq) ci False ts"
| "parse_tokens st alts seq ci lastRepeat (TEol # ts) = parse_tokens st alts (Eol # seq) ci False ts"
| "parse_tokens st alts seq ci lastRepeat (TOpen # ts) =
     parse_tokens ((alts, seq, ci) # st) [] [] ci False ts"
| "parse_tokens st alts seq ci lastRepeat (TFlagI # ts) = parse_tokens st alts seq True False ts"
| "parse_tokens st alts seq ci lastRepeat (TClose # ts) =
     (case st of
        [] \<Rightarrow> None
      | (alts', seq', ci') # st' \<Rightarrow> parse_tokens st' alts' (mk_alt alts seq # seq') ci' False ts)"
| "parse_tokens st alts seq ci lastRepeat (TBar # ts) =
     parse_tokens st (cat_list (rev seq) # alts) [] ci False ts"
| "parse_tokens st alts seq ci lastRepeat (t # ts) =
     (case seq of
        [] \<Rightarrow> None
      | x # seq' \<Rightarrow>
          if lastRepeat then None else parse_tokens st alts (repeat_re x t # seq') ci True ts)"

definition Compile :: "string \<Rightarrow> error + re" where
  "Compile expr =
     (case lex (length expr) expr of
        None \<Rightarrow> Inl ErrCompile
      | Some ts \<Rightarrow>
          (case parse_tokens [] [] [] False False ts of
             None \<Rightarrow> Inl ErrCompile
           | Some r \<Rightarrow> Inr r))"

subsection \<open>\<open>MatchString\<close>, \<open>FindAllStringIndex\<close>, \<open>FindAllStringSubmatch\<close>\<close>

definition MatchString :: "re \<Rightarrow> string \<Rightarrow> bool" where
  "MatchString r s = (search r 0 s 0 \<noteq> None)"

lemma decodeRune_width:
  assumes "s \<noteq> []"
  shows "1 \<le> snd (decodeRune s) \<and> snd (decodeRune s) \<le> length s"
proof -
  from assms obtain c cs where s: "s = c # cs" by (cases s) auto
  show ?thesis
    unfolding s decodeRune_def Let_def
    by (auto simp: Suc_le_eq split: if_splits)
qed

lemma star_pos:
  assumes f: "\<And>p q. q \<in> set (f p) \<Longrightarrow>
                fst p \<le> fst q \<and> fst q - fst p \<le> length (snd p) \<and> snd q = drop (fst q - fst p) (snd p)"
    and "q \<in> set (star f n p)"
  shows "fst p \<le> fst q \<and> fst q - fst p \<le> length (snd p) \<and> snd q = drop (fst q - fst p) (snd p)"
  using assms(2)
proof (induction n arbitrary: p)
  case 0
  then show ?case by simp
next
  case (Suc n)
  from Suc.prems consider "q = p"
    | m where "m \<in> set (f p)" "fst p < fst m" "q \<in> set (star f n m)"
    by auto
  then show ?case
  proof cases
    case 1
    then show ?thesis by simp
  next
    case 2
    from f [OF 2(1)] have a: "fst p \<le> fst m" "fst m - fst p \<le> length (snd p)"
      "snd m = drop (fst m - fst p) (snd p)" by simp_all
    from Suc.IH [OF 2(3)] have b: "fst m \<le> fst q" "fst q - fst m \<le> length (snd m)"
      "snd q = drop (fst q - fst m) (snd m)" by simp_all
    have "fst q - fst p = (fst q - fst m) + (fst m - fst p)" using a b by simp
    then show ?thesis using a b by (simp add: add.commute)
  qed
qed

lemma ends_pos:
  assumes "q \<in> set (ends r p)"
  shows "fst p \<le> fst q \<and> fst q - fst p \<le> length (snd p) \<and> snd q = drop (fst q - fst p) (snd p)"
  using assms
proof (induction r arbitrary: p q)
  case Empty
  then show ?case by simp
next
  case (Cls neg ranges)
  then have ne: "snd p \<noteq> []" and q: "q = (fst p + snd (decodeRune (snd p)), drop (snd (decodeRune (snd p))) (snd p))"
    by (auto split: if_splits)
  from decodeRune_width [OF ne] show ?case by (simp add: q)
next
  case Bol
  then show ?case by (simp split: if_splits)
next
  case Eol
  then show ?case by (simp split: if_splits)
next
  case (Cat a b)
  then obtain m where m: "m \<in> set (ends a p)" "q \<in> set (ends b m)" by auto
  from Cat.IH(1) [OF m(1)] have a: "fst p \<le> fst m" "fst m - fst p \<le> length (snd p)"
    "snd m = drop (fst m - fst p) (snd p)" by simp_all
  from Cat.IH(2) [OF m(2)] have b: "fst m \<le> fst q" "fst q - fst m \<le> length (snd m)"
    "snd q = drop (fst q - fst m) (snd m)" by simp_all
  have "fst q - fst p = (fst q - fst m) + (fst m - fst p)" using a b by simp
  then show ?case using a b by (simp add: add.commute)
next
  case (Alt a b)
  from Alt.prems consider "q \<in> set (ends a p)" | "q \<in> set (ends b p)" by auto
  then show ?case
  proof cases
    case 1 then show ?thesis by (rule Alt.IH(1))
  next
    case 2 then show ?thesis by (rule Alt.IH(2))
  qed
next
  case (Star a)
  then have "q \<in> set (star (ends a) (length (snd p)) p)" by simp
  then show ?case using Star.IH by (rule star_pos [rotated])
qed

lemma search_bounds:
  assumes "search r i cs k = Some (a, b)"
  shows "i \<le> a \<and> a \<le> b \<and> b \<le> i + length cs"
  using assms
proof (induction cs arbitrary: i k)
  case Nil
  then obtain q qs where e: "ends r (i, []) = q # qs" and ab: "a = i" "b = fst q"
    by (auto split: if_splits list.splits)
  have "q \<in> set (ends r (i, []))" by (simp add: e)
  from ends_pos [OF this] show ?case using ab by simp
next
  case (Cons c cs)
  show ?case
  proof (cases "0 < k")
    case True
    with Cons.prems have "search r (i + 1) cs (k - 1) = Some (a, b)" by simp
    from Cons.IH [OF this] show ?thesis by simp
  next
    case False
    show ?thesis
    proof (cases "ends r (i, c # cs)")
      case Nil
      with False Cons.prems have "search r (i + 1) cs (snd (decodeRune (c # cs)) - 1) = Some (a, b)" by simp
      from Cons.IH [OF this] show ?thesis by simp
    next
      case e: (Cons q qs)
      with False Cons.prems have ab: "a = i" "b = fst q" by simp_all
      have "q \<in> set (ends r (i, c # cs))" by (simp add: e)
      from ends_pos [OF this] have "i \<le> fst q" "fst q - i \<le> Suc (length cs)" by simp_all
      then show ?thesis using ab by simp
    qed
  qed
qed

text \<open>
  \<open>Regexp.allMatches\<close>: search from \<open>pos\<close>; an empty match right after the previous
  match is dropped; after an empty match the search moves on by one rune, after any
  other match to its end.
\<close>

function allMatches :: "re \<Rightarrow> string \<Rightarrow> nat \<Rightarrow> nat option \<Rightarrow> (nat \<times> nat) list" where
  "allMatches r s pos prevMatchEnd =
     (if length s < pos then []
      else
        (case search r pos (drop pos s) 0 of
           None \<Rightarrow> []
         | Some (a, b) \<Rightarrow>
             (if b = pos then
                (if Some a = prevMatchEnd then [] else [(a, b)])
                @ allMatches r s
                    (if pos < length s then pos + snd (decodeRune (drop pos s)) else length s + 1)
                    (Some b)
              else (a, b) # allMatches r s b (Some b))))"
  by pat_completeness auto
termination
proof (relation "measure (\<lambda>(r, s, pos, prev). length s + 1 - pos)", goal_cases)
  case 1
  show ?case by simp
next
  case (2 r s pos prevMatchEnd x2 a b)
  have "pos < (if pos < length s then pos + snd (decodeRune (drop pos s)) else length s + 1)"
  proof (cases "pos < length s")
    case True
    then have "drop pos s \<noteq> []" by simp
    from decodeRune_width [OF this] show ?thesis using True by simp
  next
    case False
    then show ?thesis using 2(1) by simp
  qed
  then show ?case using 2(1) by auto
next
  case (3 r s pos prevMatchEnd x2 a b)
  from 3(2,3) have "search r pos (drop pos s) 0 = Some (a, b)" by simp
  from search_bounds [OF this] have "pos \<le> b" by simp
  then show ?case using 3(1,4) by auto
qed

declare allMatches.simps [simp del]

definition FindAllStringIndex :: "re \<Rightarrow> string \<Rightarrow> (nat \<times> nat) list" where
  "FindAllStringIndex r s = allMatches r s 0 None"

definition FindAllStringSubmatch :: "re \<Rightarrow> string \<Rightarrow> string list list" where
  "FindAllStringSubmatch r s =
     map (\<lambda>(a, b). [take (b - a) (drop a s)]) (allMatches r s 0 None)"

section \<open>The ignore matcher (\<open>ignore.go\<close>)\<close>

text \<open>\<open>type IgnoreChecker struct\<close>; \<open>NewIgnoreChecker\<close> starts with both lists empty.\<close>

record IgnoreChecker =
  patterns :: "string list"
  regexes :: "re list"

definition NewIgnoreChecker :: IgnoreChecker where
  "NewIgnoreChecker = \<lparr>patterns = [], regexes = []\<rparr>"

subsection \<open>\<open>globToRegex\<close>\<close>

text \<open>
  The inner loop of the \<open>'['\<close> case, \<open>for j < len(glob) && glob[j] != ']' { j++ }\<close>,
  and the three steps before it: \<open>classEnd glob i\<close> is the value of \<open>j\<close> when the loop
  ends.
\<close>

function skipClass :: "string \<Rightarrow> nat \<Rightarrow> nat" where
  "skipClass glob j =
     (if j < length glob \<and> glob ! j \<noteq> CHR '']'' then skipClass glob (j + 1) else j)"
  by pat_completeness auto
termination
  by (relation "measure (\<lambda>(glob, j). length glob - j)") auto

declare skipClass.simps [simp del]

lemma skipClass_ge: "j \<le> skipClass glob j"
proof (induction glob j rule: skipClass.induct)
  case (1 glob j)
  show ?case
  proof (cases "j < length glob \<and> glob ! j \<noteq> CHR '']''")
    case True
    then have "skipClass glob j = skipClass glob (j + 1)" by (subst skipClass.simps) simp
    then show ?thesis using 1 [OF True] by simp
  next
    case False
    then have "skipClass glob j = j" by (subst skipClass.simps) auto
    then show ?thesis by simp
  qed
qed

definition classEnd :: "string \<Rightarrow> nat \<Rightarrow> nat" where
  "classEnd glob i =
     (let j = i + 1;
          j = (if j < length glob \<and> glob ! j = CHR ''!'' then j + 1 else j);
          j = (if j < length glob \<and> glob ! j = CHR '']'' then j + 1 else j)
      in skipClass glob j)"

lemma classEnd_gt: "i < classEnd glob i"
proof -
  have "i < skipClass glob j" if "i + 1 \<le> j" for j
    using skipClass_ge [of j glob] that by linarith
  then show ?thesis by (simp add: classEnd_def Let_def)
qed

text \<open>
  \<open>string(glob[i])\<close> converts a byte to a string through a rune: a byte below 128 is
  itself, any other byte \<open>b\<close> becomes the two bytes of the UTF-8 encoding of \<open>U+00b\<close>.
\<close>

definition string_of_byte :: "char \<Rightarrow> string" where
  "string_of_byte c =
     (if (of_char c :: nat) < 128 then [c]
      else [char_of (192 + (of_char c :: nat) div 64), char_of (128 + (of_char c :: nat) mod 64)])"

text \<open>
  \<open>func (ic *IgnoreChecker) globToRegex(glob string) (string, error)\<close>: the loop
  \<open>for i < len(glob)\<close> with its \<open>switch glob[i]\<close>, started with \<open>regex := "^"\<close>, \<open>i := 0\<close>;
  after the loop \<open>regex += "$"\<close>.
\<close>

function globToRegex_loop :: "string \<Rightarrow> nat \<Rightarrow> string \<Rightarrow> error + string" where
  "globToRegex_loop glob i regex =
     (if \<not> i < length glob then Inr (regex @ ''$'')
      else if glob ! i = CHR ''*'' then
        (if i + 1 < length glob \<and> glob ! (i + 1) = CHR ''*'' then
           (if i + 2 < length glob \<and> glob ! (i + 2) = CHR ''/'' then
              globToRegex_loop glob (i + 3) (regex @ ''(?:.*/|^)'')
            else if i + 2 = length glob then
              globToRegex_loop glob (i + 2) (regex @ ''.*'')
            else
              globToRegex_loop glob (i + 1) (regex @ ''[^/]*''))
         else
           globToRegex_loop glob (i + 1) (regex @ ''[^/]*''))
      else if glob ! i = CHR ''?'' then
        globToRegex_loop glob (i + 1) (regex @ ''[^/]'')
      else if glob ! i = CHR ''['' then
        (if length glob \<le> classEnd glob i then Inl ErrUnterminatedClass
         else
           (let class = take (classEnd glob i + 1 - i) (drop i glob);
                class = (if HasPrefix class ''[!'' then ''[^'' @ drop 2 class else class)
            in globToRegex_loop glob (classEnd glob i + 1) (regex @ class)))
      else if glob ! i \<in> set ''.^$+{}()|'' \<or> glob ! i = CHR 0x5C then
        globToRegex_loop glob (i + 1) (regex @ [CHR 0x5C] @ string_of_byte (glob ! i))
      else
        globToRegex_loop glob (i + 1) (regex @ string_of_byte (glob ! i)))"
  by pat_completeness auto
termination
proof (relation "measure (\<lambda>(glob, i, regex). length glob - i)", goal_cases)
  case (7 glob i regex x xa)
  then show ?case using classEnd_gt [of i glob] by auto
qed auto

declare globToRegex_loop.simps [simp del]

definition globToRegex :: "string \<Rightarrow> error + string" where
  "globToRegex glob = globToRegex_loop glob 0 ''^''"

subsection \<open>\<open>AddPattern\<close> and \<open>ShouldIgnore\<close>\<close>

text \<open>
  \<open>AddPattern\<close> returns an error and changes the checker it is called on: the model
  returns the error (\<open>None\<close> for \<open>nil\<close>) and the checker afterwards.
\<close>

definition AddPattern :: "IgnoreChecker \<Rightarrow> string \<Rightarrow> error option \<times> IgnoreChecker" where
  "AddPattern ic pattern =
     (case globToRegex pattern of
        Inl err \<Rightarrow> (Some err, ic)
      | Inr regex \<Rightarrow>
          (case Compile regex of
             Inl err \<Rightarrow> (Some err, ic)
           | Inr compiledRegex \<Rightarrow>
               (None, ic\<lparr>patterns := patterns ic @ [pattern],
                          regexes := regexes ic @ [compiledRegex]\<rparr>)))"

text \<open>
  \<open>path/filepath\<close> on a system whose separator is the slash: \<open>ToSlash\<close> changes
  nothing there; \<open>Base\<close> drops trailing separators and returns what follows the last
  separator left, \<open>"."\<close> for the empty path and the separator for a path of
  separators only.
\<close>

definition Separator :: char where
  "Separator = CHR ''/''"

definition ToSlash :: "string \<Rightarrow> string" where
  "ToSlash path =
     (if Separator = CHR ''/'' then path
      else map (\<lambda>c. if c = Separator then CHR ''/'' else c) path)"

definition Base :: "string \<Rightarrow> string" where
  "Base path =
     (if path = [] then ''.''
      else
        (let stripped = rev (dropWhile (\<lambda>c. c = Separator) (rev path));
             element = rev (takeWhile (\<lambda>c. c \<noteq> Separator) (rev stripped))
         in if element = [] then [Separator] else element))"

fun ShouldIgnore_loop :: "re list \<Rightarrow> string \<Rightarrow> bool" where
  "ShouldIgnore_loop [] normalizedPath = False"
| "ShouldIgnore_loop (regex # rest) normalizedPath =
     (if MatchString regex normalizedPath then True
      else if MatchString regex (Base normalizedPath) then True
      else ShouldIgnore_loop rest normalizedPath)"

definition ShouldIgnore :: "IgnoreChecker \<Rightarrow> string \<Rightarrow> bool" where
  "ShouldIgnore ic filePath = ShouldIgnore_loop (regexes ic) (ToSlash filePath)"

section \<open>The scan engine (\<open>rules.go\<close>)\<close>

text \<open>\<open>type SecretRule struct\<close>, with the compiled pattern, and \<open>type SecretScanner struct\<close>.\<close>

record SecretRule =
  ID :: string
  Name :: string
  Pattern :: re
  Description :: string
  Advice :: string

record SecretScanner =
  rules :: "SecretRule list"

text \<open>
  The table of \<open>loadDefaultRules\<close>: identifier, name, pattern, description, advice.
  The patterns are the raw string literals of the source; \<open>BS\<close> is the backslash and
  \<open>SQ\<close> the single quote, which a string literal here cannot hold.
\<close>

definition BS :: string where "BS = [CHR 0x5C]"
definition SQ :: string where "SQ = [CHR 0x27]"

definition default_rules :: "(string \<times> string \<times> string \<times> string \<times> string) list" where
  \<open>default_rules =
    [(''OPENAI_API_KEY'', ''OpenAI API Key'',
      ''sk-[A-Za-z0-9]{20,}'',
      ''OpenAI API key detected'',
      ''Move this to an environment variable (.env file) and add .env to .gitignore''),
     (''GITHUB_PAT'', ''GitHub Personal Access Token'',
      ''ghp_[A-Za-z0-9]{36}'',
      ''GitHub Personal Access Token detected'',
      ''Store in environment variables or GitHub Secrets for CI/CD''),
     (''AWS_ACCESS_KEY'', ''AWS Access Key ID'',
      ''(AKIA|ASIA)[A-Z0-9]{16}'',
      ''AWS Access Key ID detected'',
      ''Use AWS IAM roles or store in AWS credentials file/environment variables''),
     (''AWS_SECRET_KEY'', ''AWS Secret Access Key'',
      ''(?i)aws(.{0,20})?(secret|access).{0,20}['' @ SQ @ BS @ ''"][A-Za-z0-9/+=]{40}['' @ SQ @ BS @ ''"]'',
      ''AWS Secret Access Key detected'',
      ''Use AWS IAM roles or store in AWS credentials file/environment variables''),
     (''STRIPE_LIVE_PK'', ''Stripe Live Publishable Key'',
      ''pk_live_[A-Za-z0-9]{24}'',
      ''Stripe Live Publishable Key detected'',
      ''Move to environment variables and ensure it'' @ SQ @ ''s not exposed in client-side code''),
     (''STRIPE_LIVE_SK'', ''Stripe Live Secret Key'',
      ''sk_live_[A-Za-z0-9]{24}'',
      ''Stripe Live Secret Key detected'',
      ''Move to environment variables and never expose in client-side code''),
     (''SLACK_TOKEN'', ''Slack Token'',
      ''xox[baprs]-[0-9A-Za-z'' @ BS @ ''-]+'',
      ''Slack API token detected'',
      ''Store in environment variables or secure configuration management''),
     (''JWT_TOKEN'', ''JSON Web Token'',
      ''eyJ[A-Za-z0-9_'' @ BS @ ''-]+'' @ BS @ ''.[A-Za-z0-9._'' @ BS @ ''-]+'' @ BS @ ''.[A-Za-z0-9._'' @ BS @ ''-]+'',
      ''JWT token detected'',
      ''Avoid committing JWTs; use secure token storage and short expiration times''),
     (''GENERIC_API_KEY'', ''Generic API Key Pattern'',
      ''(?i)(api[_'' @ BS @ ''-]?key|apikey|secret[_'' @ BS @ ''-]?key|secretkey|access[_'' @ BS @ ''-]?token|accesstoken)''
        @ BS @ ''s*[=:]'' @ BS @ ''s*['' @ SQ @ BS @ ''"]?[A-Za-z0-9'' @ BS @ ''+/]{32,}['' @ SQ @ BS @ ''"]?'',
      ''Generic API key pattern detected'',
      ''Move sensitive keys to environment variables or secure configuration''),
     (''PRIVATE_KEY'', ''Private Key'',
      ''-----BEGIN'' @ BS @ ''s+(RSA'' @ BS @ ''s+)?PRIVATE'' @ BS @ ''s+KEY-----'',
      ''Private key detected'',
      ''Store private keys securely, never commit to version control'')]\<close>

fun loadRules :: "(string \<times> string \<times> string \<times> string \<times> string) list \<Rightarrow> SecretScanner \<Rightarrow> SecretScanner" where
  "loadRules [] s = s"
| "loadRules ((rid, rname, pattern, description, advice) # rest) s =
     (case Compile pattern of
        Inl err \<Rightarrow> loadRules rest s
      | Inr compiled \<Rightarrow>
          loadRules rest
            (s\<lparr>rules := rules s @
                 [\<lparr>ID = rid, Name = rname, Pattern = compiled,
                   Description = description, Advice = advice\<rparr>]\<rparr>))"

definition loadDefaultRules :: "SecretScanner \<Rightarrow> SecretScanner" where
  "loadDefaultRules s = loadRules default_rules s"

definition NewSecretScanner :: SecretScanner where
  "NewSecretScanner = loadDefaultRules \<lparr>rules = []\<rparr>"

text \<open>
  \<open>func (s *SecretScanner) ScanLine(filePath string, lineNum int, content string)
  []Finding\<close>. \<open>rule_findings\<close> is the body of the loop over \<open>s.rules\<close> for one rule:
  nothing when \<open>matches == nil\<close>, else one finding for each match, with the positions
  of \<open>indexes[i]\<close> when \<open>i < len(indexes)\<close>.
\<close>

definition rule_findings :: "SecretRule \<Rightarrow> string \<Rightarrow> go_int \<Rightarrow> string \<Rightarrow> Finding list" where
  "rule_findings rule filePath lineNum content =
     (let matches = FindAllStringSubmatch (Pattern rule) content in
      if matches = [] then []
      else
        (let indexes = FindAllStringIndex (Pattern rule) content in
         map (\<lambda>(i, match).
                \<lparr>Finding.RuleID = ID rule,
                 Finding.RuleName = Name rule,
                 Finding.FilePath = filePath,
                 Finding.LineNum = lineNum,
                 Finding.Content = content,
                 Finding.Match = (if 0 < length match then match ! 0 else []),
                 Finding.StartPos = (if i < length indexes then fst (indexes ! i) else 0),
                 Finding.EndPos = (if i < length indexes then snd (indexes ! i) else 0),
                 Finding.Description = SecretRule.Description rule,
                 Finding.Advice = SecretRule.Advice rule\<rparr>)
             (zip [0..<length matches] matches)))"

definition ScanLine :: "SecretScanner \<Rightarrow> string \<Rightarrow> go_int \<Rightarrow> string \<Rightarrow> Finding list" where
  "ScanLine s filePath lineNum content =
     concat (map (\<lambda>rule. rule_findings rule filePath lineNum content) (rules s))"

text \<open>
  What one entry of the rule table adds to the result of \<open>ScanLine\<close> on a scanner
  made by \<open>NewSecretScanner\<close>: the body of the loop of \<open>loadDefaultRules\<close> (an entry
  whose pattern does not compile is skipped), then the body of the loop of \<open>ScanLine\<close>
  for the rule it appended.
\<close>

definition source_findings ::
  "string \<times> string \<times> string \<times> string \<times> string \<Rightarrow> string \<Rightarrow> go_int \<Rightarrow> string \<Rightarrow> Finding list" where
  "source_findings src filePath lineNum content =
     (case src of (rid, rname, pattern, description, advice) \<Rightarrow>
        (case Compile pattern of
           Inl err \<Rightarrow> []
         | Inr compiled \<Rightarrow>
             rule_findings \<lparr>ID = rid, Name = rname, Pattern = compiled,
                             Description = description, Advice = advice\<rparr>
               filePath lineNum content))"

text \<open>A scanner with one rule, \<open>k[0-9]*\<close>, to run \<open>ScanLine\<close> on.\<close>

definition example_scanner :: SecretScanner where
  "example_scanner =
     \<lparr>rules = [\<lparr>ID = ''KEY'', Name = ''Key'',
                Pattern = Cat (Cls False [(107, 107)]) (Star (Cls False [(48, 57)])),
                Description = [], Advice = []\<rparr>]\<rparr>"

section \<open>Masking\<close>

text \<open>
  \<open>rules.go\<close>, \<open>func (f *Finding) MaskSecret() string\<close>: at most eight bytes are
  all masked; otherwise \<open>f.Match[:4]\<close>, then \<open>len(f.Match)-8\<close> stars, then
  \<open>f.Match[len(f.Match)-4:]\<close>.
\<close>

definition MaskSecret :: "Finding \<Rightarrow> string" where
  "MaskSecret f =
     (if length (Finding.Match f) \<le> 8 then replicate (length (Finding.Match f)) CHR ''*''
      else
        (let prefix = take 4 (Finding.Match f);
             suffix = drop (length (Finding.Match f) - 4) (Finding.Match f);
             middle = replicate (length (Finding.Match f) - 8) CHR ''*''
         in prefix @ middle @ suffix))"

definition finding_of_match :: "string \<Rightarrow> Finding" where
  "finding_of_match m =
     \<lparr>Finding.RuleID = ''OPENAI_API_KEY'', Finding.RuleName = ''OpenAI API Key'', Finding.FilePath = ''a.txt'',
      Finding.LineNum = 1, Finding.Content = m, Finding.Match = m, Finding.StartPos = 0, Finding.EndPos = length m,
      Finding.Description = [], Finding.Advice = []\<rparr>"


section \<open>Properties of masking\<close>

lemma MaskSecret_length: "length (MaskSecret f) = length (Finding.Match f)"
  by (simp add: MaskSecret_def Let_def)

lemma MaskSecret_short:
  assumes "length (Finding.Match f) \<le> 8"
  shows "MaskSecret f = replicate (length (Finding.Match f)) CHR ''*''"
  using assms by (simp add: MaskSecret_def)

lemma MaskSecret_long_nth:
  assumes "8 < length (Finding.Match f)" and "i < length (Finding.Match f)"
  shows "MaskSecret f ! i =
           (if i < 4 \<or> length (Finding.Match f) - 4 \<le> i then Finding.Match f ! i else CHR ''*'')"
proof -
  let ?s = "Finding.Match f"
  have m: "MaskSecret f = take 4 ?s @ replicate (length ?s - 8) CHR ''*'' @ drop (length ?s - 4) ?s"
    using assms(1) by (simp add: MaskSecret_def Let_def)
  consider "i < 4" | "4 \<le> i" "i < length ?s - 4" | "length ?s - 4 \<le> i" by linarith
  then show ?thesis
  proof cases
    case 1
    then show ?thesis using assms by (simp add: m nth_append)
  next
    case 2
    then have "i - 4 < length ?s - 8" by linarith
    then show ?thesis using 2 assms by (simp add: m nth_append)
  next
    case 3
    then have "i - 4 - (length ?s - 8) + (length ?s - 4) = i" "\<not> i < 4" "\<not> i - 4 < length ?s - 8"
      using assms by linarith+
    then show ?thesis using 3 assms by (simp add: m nth_append)
  qed
qed

text \<open>
  Claim C1. For every matched substring \<open>s\<close> the masked rendering has the length of
  \<open>s\<close>; when \<open>s\<close> has at most eight bytes every byte of the rendering is the mask
  character; when it has more, the first four and the last four bytes are those of
  \<open>s\<close> and every byte strictly between them is the mask character.
\<close>

theorem C1_MaskSecret_shape:
  "length (MaskSecret f) = length (Finding.Match f) \<and>
   (length (Finding.Match f) \<le> 8 \<longrightarrow> (\<forall>i < length (Finding.Match f). MaskSecret f ! i = CHR ''*'')) \<and>
   (8 < length (Finding.Match f) \<longrightarrow>
      take 4 (MaskSecret f) = take 4 (Finding.Match f) \<and>
      drop (length (Finding.Match f) - 4) (MaskSecret f) = drop (length (Finding.Match f) - 4) (Finding.Match f) \<and>
      (\<forall>i. 4 \<le> i \<and> i < length (Finding.Match f) - 4 \<longrightarrow> MaskSecret f ! i = CHR ''*''))"
proof (intro conjI impI allI)
  show "length (MaskSecret f) = length (Finding.Match f)" by (rule MaskSecret_length)
next
  fix i assume "length (Finding.Match f) \<le> 8" "i < length (Finding.Match f)"
  then show "MaskSecret f ! i = CHR ''*''" by (simp add: MaskSecret_short)
next
  assume "8 < length (Finding.Match f)"
  then show "take 4 (MaskSecret f) = take 4 (Finding.Match f)"
    by (simp add: MaskSecret_def Let_def)
next
  assume "8 < length (Finding.Match f)"
  then show "drop (length (Finding.Match f) - 4) (MaskSecret f) = drop (length (Finding.Match f) - 4) (Finding.Match f)"
    by (simp add: MaskSecret_def Let_def)
next
  fix i assume "8 < length (Finding.Match f)" "4 \<le> i \<and> i < length (Finding.Match f) - 4"
  then have "i < length (Finding.Match f)" "\<not> (i < 4 \<or> length (Finding.Match f) - 4 \<le> i)" by linarith+
  then show "MaskSecret f ! i = CHR ''*''"
    using MaskSecret_long_nth [of f i] \<open>8 < length (Finding.Match f)\<close> by simp
qed

theorem C1_MaskSecret_shape_witness:
  "length (Finding.Match (finding_of_match ''12345678'')) \<le> 8 \<and>
   MaskSecret (finding_of_match ''12345678'') ! 7 = CHR ''*'' \<and>
   8 < length (Finding.Match (finding_of_match ''sk-abc123def'')) \<and>
   length (MaskSecret (finding_of_match ''sk-abc123def'')) = 12 \<and>
   take 4 (MaskSecret (finding_of_match ''sk-abc123def'')) = ''sk-a'' \<and>
   drop 8 (MaskSecret (finding_of_match ''sk-abc123def'')) = ''3def'' \<and>
   MaskSecret (finding_of_match ''sk-abc123def'') ! 4 = CHR ''*'' \<and>
   MaskSecret (finding_of_match ''sk-abc123def'') ! 7 = CHR ''*''"
  using C1_MaskSecret_shape [of "finding_of_match ''12345678''"]
    C1_MaskSecret_shape [of "finding_of_match ''sk-abc123def''"]
  by (simp add: finding_of_match_def MaskSecret_def)

section \<open>Properties of the diff extractor\<close>

subsection \<open>One line, and a run of lines\<close>

lemma HasPrefix_Cons: "HasPrefix s (c # p) = (s \<noteq> [] \<and> hd s = c \<and> HasPrefix (tl s) p)"
  by (cases s) (auto simp: HasPrefix_def)

lemma HasPrefix_Nil [simp]: "HasPrefix s []"
  by (simp add: HasPrefix_def)

lemma fileHeader_Some_prefix: "fileHeader l = Some p \<Longrightarrow> HasPrefix l ''+++''"
  by (auto simp: fileHeader_def HasPrefix_Cons split: if_splits)

lemma hunkHeader_Some_prefix: "hunkHeader l = Some d \<Longrightarrow> HasPrefix l ''@@ -''"
  by (auto simp: hunkHeader_def split: if_splits)

lemma hunk_not_file: "hunkHeader l = Some d \<Longrightarrow> fileHeader l = None"
proof (cases "fileHeader l")
  case None then show ?thesis by simp
next
  case (Some p)
  assume "hunkHeader l = Some d"
  then have "HasPrefix l ''@@ -''" by (rule hunkHeader_Some_prefix)
  moreover have "HasPrefix l ''+++''" using Some by (rule fileHeader_Some_prefix)
  ultimately show ?thesis by (simp add: HasPrefix_Cons)
qed

lemma added_no_header: "is_added l \<Longrightarrow> fileHeader l = None \<and> hunkHeader l = None"
proof
  assume a: "is_added l"
  show "fileHeader l = None"
  proof (cases "fileHeader l")
    case (Some p)
    then have "HasPrefix l ''+++''" by (rule fileHeader_Some_prefix)
    then show ?thesis using a by (simp add: is_added_def)
  qed simp
  show "hunkHeader l = None"
  proof (cases "hunkHeader l")
    case (Some d)
    then have "HasPrefix l ''@@ -''" by (rule hunkHeader_Some_prefix)
    then show ?thesis using a by (simp add: is_added_def HasPrefix_Cons)
  qed simp
qed

lemma parse_line_added:
  assumes "is_added l"
  shows "parse_line st l =
     Inr (st\<lparr>lines := lines st @ [\<lparr>FilePath = currentFile st, LineNum = currentLineNum st, Content = drop 1 l\<rparr>],
             currentLineNum := currentLineNum st + 1\<rparr>)"
  using added_no_header [OF assms] assms by (simp add: parse_line_def is_added_def)

lemma parse_line_hunk:
  assumes "hunkHeader l = Some d"
  shows "parse_line st l = (case Atoi d of Inl e \<Rightarrow> Inl e | Inr n \<Rightarrow> Inr (st\<lparr>currentLineNum := n\<rparr>))"
  using hunk_not_file [OF assms] assms by (simp add: parse_line_def)

lemma parse_line_lines:
  assumes "parse_line st l = Inr st'"
  shows "lines st' = lines st @ (if is_added l then [\<lparr>FilePath = currentFile st, LineNum = currentLineNum st, Content = drop 1 l\<rparr>] else [])"
proof (cases "is_added l")
  case True
  then show ?thesis using assms by (auto simp: parse_line_added)
next
  case False
  then show ?thesis using assms
    by (auto simp: parse_line_def is_added_def split: option.splits sum.splits if_splits)
qed

lemma parse_line_counter:
  assumes "parse_line st l = Inr st'" and "hunkHeader l = None"
  shows "currentLineNum st' = currentLineNum st + (if advances l then 1 else 0)"
  using assms
  by (auto simp: parse_line_def advances_def is_added_def is_context_def fileHeader_def HasPrefix_Cons
      split: option.splits sum.splits if_splits)

lemma parse_line_file:
  assumes "parse_line st l = Inr st'" and "fileHeader l = None"
  shows "currentFile st' = currentFile st"
  using assms
  by (auto simp: parse_line_def split: option.splits sum.splits if_splits)

lemma parse_line_total:
  assumes "hunkHeader l = None"
  shows "\<exists>st'. parse_line st l = Inr st'"
  using assms by (auto simp: parse_line_def split: option.splits)

lemma parse_lines_append:
  "parse_lines st (xs @ ys) =
     (case parse_lines st xs of Inl e \<Rightarrow> Inl e | Inr st' \<Rightarrow> parse_lines st' ys)"
  by (induction xs arbitrary: st) (auto split: sum.splits)

lemma parse_lines_total:
  assumes "\<forall>l\<in>set ls. hunkHeader l = None"
  shows "\<exists>st'. parse_lines st ls = Inr st'"
  using assms
proof (induction ls arbitrary: st)
  case Nil then show ?case by simp
next
  case (Cons l ls)
  then obtain st1 where "parse_line st l = Inr st1" using parse_line_total [of l st] by auto
  then show ?case using Cons by simp
qed

lemma parse_lines_lines:
  assumes "parse_lines st ls = Inr st'"
  shows "\<exists>new. lines st' = lines st @ new \<and> length new = length (filter is_added ls)"
  using assms
proof (induction ls arbitrary: st)
  case Nil then show ?case by simp
next
  case (Cons l ls)
  then obtain st1 where 1: "parse_line st l = Inr st1" and 2: "parse_lines st1 ls = Inr st'"
    by (auto split: sum.splits)
  from Cons.IH [OF 2] obtain new where n: "lines st' = lines st1 @ new" "length new = length (filter is_added ls)"
    by blast
  show ?case using parse_line_lines [OF 1] n by auto
qed

lemma parse_lines_counter:
  assumes "parse_lines st ls = Inr st'" and "\<forall>l\<in>set ls. hunkHeader l = None"
  shows "currentLineNum st' = currentLineNum st + of_nat (length (filter advances ls))"
  using assms
proof (induction ls arbitrary: st)
  case Nil then show ?case by simp
next
  case (Cons l ls)
  then obtain st1 where 1: "parse_line st l = Inr st1" and 2: "parse_lines st1 ls = Inr st'"
    by (auto split: sum.splits)
  have "currentLineNum st' = currentLineNum st1 + of_nat (length (filter advances ls))"
    using Cons.IH [OF 2] Cons.prems(2) by simp
  moreover have "currentLineNum st1 = currentLineNum st + (if advances l then 1 else 0)"
    using parse_line_counter [OF 1] Cons.prems(2) by simp
  ultimately show ?case by simp
qed

lemma parse_lines_file:
  assumes "parse_lines st ls = Inr st'" and "\<forall>l\<in>set ls. fileHeader l = None"
  shows "currentFile st' = currentFile st"
  using assms
proof (induction ls arbitrary: st)
  case Nil then show ?case by simp
next
  case (Cons l ls)
  then obtain st1 where 1: "parse_line st l = Inr st1" and 2: "parse_lines st1 ls = Inr st'"
    by (auto split: sum.splits)
  show ?case using Cons.IH [OF 2] parse_line_file [OF 1] Cons.prems(2) by simp
qed

lemma added_record_at:
  assumes "parse_lines st (pre @ l # post) = Inr st'" and "is_added l"
  shows "\<exists>st1. parse_lines st pre = Inr st1 \<and>
           length (lines st1) = length (lines st) + length (filter is_added pre) \<and>
           lines st' ! (length (lines st1)) =
             \<lparr>FilePath = currentFile st1, LineNum = currentLineNum st1, Content = drop 1 l\<rparr>"
proof -
  from assms(1) obtain st1 where 1: "parse_lines st pre = Inr st1"
    and 2: "parse_lines st1 (l # post) = Inr st'"
    by (auto simp: parse_lines_append split: sum.splits)
  let ?r = "\<lparr>FilePath = currentFile st1, LineNum = currentLineNum st1, Content = drop 1 l\<rparr>"
  let ?st2 = "st1\<lparr>lines := lines st1 @ [?r], currentLineNum := currentLineNum st1 + 1\<rparr>"
  have 3: "parse_lines ?st2 post = Inr st'"
    using 2 parse_line_added [OF assms(2), of st1] by simp
  from parse_lines_lines [OF 3] obtain new where "lines st' = (lines st1 @ [?r]) @ new" by auto
  then have "lines st' ! (length (lines st1)) = ?r" by (simp add: nth_append)
  moreover from parse_lines_lines [OF 1] have "length (lines st1) = length (lines st) + length (filter is_added pre)"
    by auto
  ultimately show ?thesis using 1 by blast
qed

lemma hunkHeader_digits:
  assumes "hunkHeader l = Some d"
  shows "d \<noteq> [] \<and> list_all isDigit d"
proof -
  from assms obtain r where "d = takeWhile isDigit r" "d \<noteq> []"
    by (auto simp: hunkHeader_def Let_def split: if_splits)
  then show ?thesis by (auto simp: list_all_iff dest: set_takeWhileD)
qed

lemma Atoi_digits:
  assumes "d \<noteq> []" "list_all isDigit d"
  shows "Atoi d = (if digitsValue d < 2 ^ 63 then Inr (word_of_nat (digitsValue d)) else Inl ErrRange)"
proof -
  from assms obtain c cs where d: "d = c # cs" by (cases d) auto
  then have "isDigit c" using assms by simp
  then have "c \<noteq> CHR ''+''" "c \<noteq> CHR ''-''" by (auto simp: isDigit_def)
  then show ?thesis using assms d by (simp add: Atoi_def)
qed

lemma hunk_not_added: "hunkHeader l = Some d \<Longrightarrow> \<not> is_added l"
  using added_no_header by fastforce

lemma parseDiff_Inr:
  assumes "parseDiff t = Inr recs" and "ScanLines t = (toks, e)"
  shows "\<exists>st. parse_lines initial_state toks = Inr st \<and> recs = lines st \<and> \<not> e"
  using assms by (auto simp: parseDiff_def split: sum.splits if_splits)

lemma after_hunk:
  assumes "parse_lines st (pre @ hdr # block) = Inr st2"
    and "hunkHeader hdr = Some digits"
    and "\<forall>l\<in>set block. hunkHeader l = None"
  shows "Atoi digits = Inr (word_of_nat (digitsValue digits)) \<and> digitsValue digits < 2 ^ 63 \<and>
         currentLineNum st2 = word_of_nat (digitsValue digits) + of_nat (length (filter advances block)) \<and>
         length (lines st2) = length (lines st) + length (filter is_added pre) + length (filter is_added block)"
proof -
  from assms(1) obtain sA sB where a: "parse_lines st pre = Inr sA"
    and b: "parse_line sA hdr = Inr sB" and c: "parse_lines sB block = Inr st2"
    by (auto simp: parse_lines_append split: sum.splits)
  have at: "Atoi digits = (if digitsValue digits < 2 ^ 63 then Inr (word_of_nat (digitsValue digits)) else Inl ErrRange)"
    using hunkHeader_digits [OF assms(2)] by (simp add: Atoi_digits)
  from b have ok: "digitsValue digits < 2 ^ 63" and sB: "sB = sA\<lparr>currentLineNum := word_of_nat (digitsValue digits)\<rparr>"
    by (auto simp: parse_line_hunk [OF assms(2)] at split: if_splits)
  have "currentLineNum st2 = currentLineNum sB + of_nat (length (filter advances block))"
    using parse_lines_counter [OF c assms(3)] .
  moreover from parse_lines_lines [OF a] parse_lines_lines [OF c]
  have "length (lines st2) = length (lines st) + length (filter is_added pre) + length (filter is_added block)"
    by (auto simp: sB)
  ultimately show ?thesis using at ok by (simp add: sB)
qed

lemma sint_of_nat_small:
  assumes "n < 2 ^ 63"
  shows "sint (word_of_nat n :: go_int) = int n"
proof -
  have "- (2 ^ 63) \<le> int n" by (rule order_trans [of _ 0]) simp_all
  moreover have "int n < 2 ^ 63" using assms by (metis of_nat_less_iff of_nat_numeral of_nat_power)
  ultimately have "signed_take_bit 63 (int n) = int n"
    by (rule signed_take_bit_int_eq_self)
  then show ?thesis by (simp add: signed_of_nat)
qed


lemma ScanLines_Nil: "ScanLines [] = ([], False)"
  by (simp add: ScanLines.simps)

lemma ScanLines_Cons:
  "ScanLines (c # s) =
     (if MaxScanTokenSize \<le> length (takeWhile (\<lambda>c. c \<noteq> CHR 0x0A) (c # s)) then ([], True)
      else (case ScanLines (drop 1 (dropWhile (\<lambda>c. c \<noteq> CHR 0x0A) (c # s))) of
              (ts, e) \<Rightarrow> (dropCR (takeWhile (\<lambda>c. c \<noteq> CHR 0x0A) (c # s)) # ts, e)))"
  by (subst ScanLines.simps) (simp add: Let_def)

lemmas ScanLines_eval = ScanLines_Nil ScanLines_Cons MaxScanTokenSize_def dropCR_def

lemmas parseDiff_eval = parseDiff_def parse_line_def fileHeader_def hunkHeader_def HasPrefix_def
  optCommaDigits_def isDigit_def Atoi_def digitsValue_def initial_state_def


lemma sint_small:
  assumes "unat (w :: go_int) < 2 ^ 63"
  shows "sint w = int (unat w)"
  using sint_of_nat_small [OF assms] by simp

lemma unat_succ_small:
  assumes "unat (w :: go_int) + 1 < 2 ^ 63"
  shows "unat (w + 1) = unat w + 1"
proof -
  have "unat w + 1 < 2 ^ 64" using assms by simp
  then show ?thesis by (simp add: unat_word_ariths)
qed

lemma block_increasing:
  assumes "parse_lines st ls = Inr st'" and "\<forall>l\<in>set ls. hunkHeader l = None"
    and "lines st' = lines st @ new" and "unat (currentLineNum st) + length ls < 2 ^ 63"
  shows "sorted_wrt (\<lambda>a b. unat (LineNum a) < unat (LineNum b)) new \<and>
         (\<forall>r\<in>set new. unat (currentLineNum st) \<le> unat (LineNum r) \<and>
                        unat (LineNum r) < unat (currentLineNum st) + length ls)"
  using assms
proof (induction ls arbitrary: st new)
  case Nil
  then show ?case by simp
next
  case (Cons l ls)
  from Cons.prems(1) obtain st1 where 1: "parse_line st l = Inr st1" and 2: "parse_lines st1 ls = Inr st'"
    by (auto split: sum.splits)
  let ?r = "\<lparr>FilePath = currentFile st, LineNum = currentLineNum st, Content = drop 1 l\<rparr>"
  have l1: "lines st1 = lines st @ (if is_added l then [?r] else [])"
    using parse_line_lines [OF 1] .
  from parse_lines_lines [OF 2] obtain new' where n': "lines st' = lines st1 @ new'" by blast
  have new: "new = (if is_added l then [?r] else []) @ new'"
    using Cons.prems(3) n' l1 by simp
  have c1: "currentLineNum st1 = currentLineNum st + (if advances l then 1 else 0)"
    using parse_line_counter [OF 1] Cons.prems(2) by simp
  have u1: "unat (currentLineNum st1) = unat (currentLineNum st) + (if advances l then 1 else 0)"
    using c1 Cons.prems(4) by (simp add: unat_succ_small)
  have b1: "unat (currentLineNum st1) + length ls < 2 ^ 63"
    using u1 Cons.prems(4) by simp
  have nh: "\<forall>l\<in>set ls. hunkHeader l = None" using Cons.prems(2) by simp
  from Cons.IH [OF 2 nh n' b1]
  have ih1: "sorted_wrt (\<lambda>a b. unat (LineNum a) < unat (LineNum b)) new'"
    and ih2: "\<forall>r\<in>set new'. unat (currentLineNum st1) \<le> unat (LineNum r) \<and>
                unat (LineNum r) < unat (currentLineNum st1) + length ls"
    by simp_all
  show ?case
  proof (cases "is_added l")
    case True
    then have adv: "advances l" by (simp add: advances_def)
    show ?thesis using True adv new ih1 ih2 u1 by auto
  next
    case False
    show ?thesis using False new ih1 ih2 u1 by (auto split: if_splits)
  qed
qed


lemma filter_advances_no_context:
  assumes "filter is_context ls = []"
  shows "filter advances ls = filter is_added ls"
  using assms by (induction ls) (auto simp: advances_def split: if_splits)

subsection \<open>Hunk headers and line numbers\<close>

text \<open>
  Claim C2, as the code has it. The counter is a Go \<open>int\<close> and \<open>currentLineNum++\<close>
  wraps: the accepted diff \<open>@@ -1 +9223372036854775807 @@\<close>, \<open>+a\<close>, \<open>+b\<close> records the
  first added line at \<open>2^63 - 1\<close> and the next one at \<open>-2^63\<close>, which is not one
  greater.
\<close>

theorem C2_one_greater_counterexample:
  "parseDiff ''@@ -1 +9223372036854775807 @@\<newline>+a\<newline>+b'' =
     Inr [\<lparr>FilePath = [], LineNum = 9223372036854775807, Content = ''a''\<rparr>,
          \<lparr>FilePath = [], LineNum = 9223372036854775807 + 1, Content = ''b''\<rparr>] \<and>
   sint (9223372036854775807 :: go_int) = 9223372036854775807 \<and>
   sint (9223372036854775807 + 1 :: go_int) = - 9223372036854775808"
  by (simp add: ScanLines_eval parseDiff_eval)

text \<open>
  Claim C2, amended. A hunk header declaring new-start \<open>N\<close> sets the current line
  counter to \<open>N\<close>: in a diff that \<open>parseDiff\<close> accepts, the record of an added line that
  follows the header, with no other hunk header in between, has as line number the
  Go \<open>int\<close> sum of \<open>N\<close> and the number \<open>k\<close> of added and context lines between the
  header and that line; as long as \<open>N + k\<close> stays below \<open>2^63\<close> that is the integer
  \<open>N + k\<close>, so the first added line gets \<open>N\<close> and every emitted or context line
  moves the next number up by one. For the header \<open>@@ -10,0 +15,3 @@\<close> the start is
  15, and the witness below runs \<open>parseDiff\<close> on that header followed by three added
  lines: they are recorded at 15, 16 and 17.
\<close>

theorem C2_hunk_header_sets_counter:
  assumes "ScanLines diffOutput = (pre @ hdr # block @ post, tooLong)"
    and "hunkHeader hdr = Some digits"
    and "\<forall>l\<in>set block. hunkHeader l = None"
    and "parseDiff diffOutput = Inr recs"
    and "j < length block" and "is_added (block ! j)"
  shows "Atoi digits = Inr (word_of_nat (digitsValue digits)) \<and>
         (hdr = ''@@ -10,0 +15,3 @@'' \<longrightarrow> digitsValue digits = 15) \<and>
         LineNum (recs ! (length (filter is_added pre) + length (filter is_added (take j block)))) =
           word_of_nat (digitsValue digits) + of_nat (length (filter advances (take j block))) \<and>
         Content (recs ! (length (filter is_added pre) + length (filter is_added (take j block)))) =
           drop 1 (block ! j) \<and>
         (digitsValue digits + length (filter advances (take j block)) < 2 ^ 63 \<longrightarrow>
            sint (LineNum (recs ! (length (filter is_added pre) + length (filter is_added (take j block))))) =
              int (digitsValue digits + length (filter advances (take j block))))"
proof -
  from parseDiff_Inr [OF assms(4) assms(1)] obtain st where
    st: "parse_lines initial_state (pre @ hdr # block @ post) = Inr st" "recs = lines st" by blast
  have split: "pre @ hdr # block @ post = (pre @ hdr # take j block) @ (block ! j) # (drop (Suc j) block @ post)"
    using assms(5) by (simp add: Cons_nth_drop_Suc)
  from added_record_at [OF st(1) [unfolded split] assms(6)] obtain st1 where
    1: "parse_lines initial_state (pre @ hdr # take j block) = Inr st1"
    and 2: "lines st ! (length (lines st1)) =
       \<lparr>FilePath = currentFile st1, LineNum = currentLineNum st1, Content = drop 1 (block ! j)\<rparr>"
    by blast
  have nh: "\<forall>l\<in>set (take j block). hunkHeader l = None"
    using assms(3) by (meson in_set_takeD)
  from after_hunk [OF 1 assms(2) nh]
  have 3: "Atoi digits = Inr (word_of_nat (digitsValue digits))"
    and 4: "currentLineNum st1 = word_of_nat (digitsValue digits) + of_nat (length (filter advances (take j block)))"
    and 5: "length (lines st1) = length (filter is_added pre) + length (filter is_added (take j block))"
    by (simp_all add: initial_state_def)
  have 6: "hdr = ''@@ -10,0 +15,3 @@'' \<longrightarrow> digitsValue digits = 15"
  proof
    assume "hdr = ''@@ -10,0 +15,3 @@''"
    then have "digits = ''15''" using assms(2)
      by (simp add: hunkHeader_def HasPrefix_def optCommaDigits_def isDigit_def)
    then show "digitsValue digits = 15" by (simp add: digitsValue_def)
  qed
  let ?r = "recs ! (length (filter is_added pre) + length (filter is_added (take j block)))"
  have 7: "LineNum ?r = word_of_nat (digitsValue digits) + of_nat (length (filter advances (take j block)))"
    and 8: "Content ?r = drop 1 (block ! j)"
    using 2 4 5 st(2) by simp_all
  have 9: "digitsValue digits + length (filter advances (take j block)) < 2 ^ 63 \<longrightarrow>
      sint (LineNum ?r) = int (digitsValue digits + length (filter advances (take j block)))"
  proof
    assume b: "digitsValue digits + length (filter advances (take j block)) < 2 ^ 63"
    have "LineNum ?r = (word_of_nat (digitsValue digits + length (filter advances (take j block))) :: go_int)"
      using 7 by simp
    moreover have "sint (word_of_nat (digitsValue digits + length (filter advances (take j block))) :: go_int)
         = int (digitsValue digits + length (filter advances (take j block)))"
      using b by (rule sint_of_nat_small)
    ultimately show "sint (LineNum ?r) = int (digitsValue digits + length (filter advances (take j block)))"
      by simp
  qed
  show ?thesis using 3 6 7 8 9 by blast
qed

theorem C2_hunk_header_sets_counter_witness:
  "ScanLines ''+++ b/f\<newline>@@ -10,0 +15,3 @@\<newline>+a\<newline>+b\<newline>+c\<newline>'' =
     ([''+++ b/f''] @ ''@@ -10,0 +15,3 @@'' # [''+a'', ''+b'', ''+c''] @ [], False) \<and>
   hunkHeader ''@@ -10,0 +15,3 @@'' = Some ''15'' \<and>
   list_all (\<lambda>l. hunkHeader l = None) [''+a'', ''+b'', ''+c''] \<and>
   parseDiff ''+++ b/f\<newline>@@ -10,0 +15,3 @@\<newline>+a\<newline>+b\<newline>+c\<newline>'' =
     Inr [\<lparr>FilePath = ''f'', LineNum = 15, Content = ''a''\<rparr>,
          \<lparr>FilePath = ''f'', LineNum = 16, Content = ''b''\<rparr>,
          \<lparr>FilePath = ''f'', LineNum = 17, Content = ''c''\<rparr>] \<and>
   is_added ''+a'' \<and> is_added ''+b'' \<and> is_added ''+c'' \<and>
   Atoi ''15'' = Inr 15 \<and>
   sint (LineNum ([\<lparr>FilePath = ''f'', LineNum = 15, Content = ''a''\<rparr>,
          \<lparr>FilePath = ''f'', LineNum = 16, Content = ''b''\<rparr>,
          \<lparr>FilePath = ''f'', LineNum = 17, Content = ''c''\<rparr>] ! 2)) = 17"
proof -
  let ?T = "''+++ b/f\<newline>@@ -10,0 +15,3 @@\<newline>+a\<newline>+b\<newline>+c\<newline>''"
  let ?recs = "[\<lparr>FilePath = ''f'', LineNum = 15, Content = ''a''\<rparr>,
          \<lparr>FilePath = ''f'', LineNum = 16, Content = ''b''\<rparr>,
          \<lparr>FilePath = ''f'', LineNum = (17::go_int), Content = ''c''\<rparr>]"
  have 1: "ScanLines ?T = ([''+++ b/f''] @ ''@@ -10,0 +15,3 @@'' # [''+a'', ''+b'', ''+c''] @ [], False)"
    by (simp add: ScanLines_eval)
  have 2: "hunkHeader ''@@ -10,0 +15,3 @@'' = Some ''15''"
    by (simp add: parseDiff_eval)
  have 3: "\<forall>l\<in>set [''+a'', ''+b'', ''+c'']. hunkHeader l = None"
    by (simp add: parseDiff_eval)
  have 4: "parseDiff ?T = Inr ?recs"
    by (simp add: ScanLines_eval parseDiff_eval)
  have 5: "(2::nat) < length [''+a'', ''+b'', ''+c'']" by simp
  have 6: "is_added ([''+a'', ''+b'', ''+c''] ! 2)" by (simp add: is_added_def HasPrefix_def)
  have 7: "is_added ''+a'' \<and> is_added ''+b'' \<and> is_added ''+c''" by (simp add: is_added_def HasPrefix_def)
  have 8: "digitsValue ''15'' = 15" by (simp add: digitsValue_def)
  have 9: "length (filter advances (take 2 [''+a'', ''+b'', ''+c''])) = 2"
    by (simp add: advances_def is_added_def is_context_def HasPrefix_def)
  have 10: "length (filter is_added [''+++ b/f'']) = 0"
    "length (filter is_added (take 2 [''+a'', ''+b'', ''+c''])) = 2"
    by (simp_all add: is_added_def HasPrefix_def)
  from C2_hunk_header_sets_counter [OF 1 2 3 4 5 6]
  have "Atoi ''15'' = Inr 15 \<and> sint (LineNum (?recs ! 2)) = 17"
    unfolding 8 9 10 by simp
  then show ?thesis using 1 2 3 4 7 by (simp only: list_all_iff simp_thms)
qed

subsection \<open>How many records\<close>

text \<open>
  Claim C3, as the code has it. The claim counts every line that begins with \<open>+\<close>
  and is not a file header \<open>+++ b/<path>\<close>; the loop is guarded by
  \<open>!strings.HasPrefix(line, "+++")\<close>, so a line such as \<open>+++ /dev/null\<close> begins with
  \<open>+\<close>, is no file header, and is not emitted.
\<close>

theorem C3_count_counterexample:
  "ScanLines ''+++ /dev/null'' = ([''+++ /dev/null''], False) \<and>
   HasPrefix ''+++ /dev/null'' ''+'' \<and>
   fileHeader ''+++ /dev/null'' = None \<and>
   parseDiff ''+++ /dev/null'' = Inr []"
  by (simp add: ScanLines_eval parseDiff_eval)

text \<open>
  Claim C3, amended. For every diff text that \<open>parseDiff\<close> accepts, the number of
  records returned is the number of input lines that begin with \<open>+\<close> but not with
  \<open>+++\<close>.
\<close>

theorem C3_count_of_records:
  assumes "parseDiff diffOutput = Inr recs"
  shows "length recs = length (filter is_added (fst (ScanLines diffOutput)))"
proof -
  obtain toks e where se: "ScanLines diffOutput = (toks, e)" by (cases "ScanLines diffOutput")
  from parseDiff_Inr [OF assms se] obtain st where
    st: "parse_lines initial_state toks = Inr st" "recs = lines st" by blast
  from parse_lines_lines [OF st(1)] show ?thesis by (auto simp: st(2) se initial_state_def)
qed

theorem C3_count_of_records_witness:
  "parseDiff ''+++ b/f\<newline>@@ -10,0 +15,3 @@\<newline>+a\<newline>+b\<newline>+c\<newline>'' =
     Inr [\<lparr>FilePath = ''f'', LineNum = 15, Content = ''a''\<rparr>,
          \<lparr>FilePath = ''f'', LineNum = 16, Content = ''b''\<rparr>,
          \<lparr>FilePath = ''f'', LineNum = 17, Content = ''c''\<rparr>] \<and>
   length (filter is_added (fst (ScanLines
      ''+++ b/f\<newline>@@ -10,0 +15,3 @@\<newline>+a\<newline>+b\<newline>+c\<newline>''))) = 3"
proof -
  let ?T = "''+++ b/f\<newline>@@ -10,0 +15,3 @@\<newline>+a\<newline>+b\<newline>+c\<newline>''"
  have 4: "parseDiff ?T = Inr [\<lparr>FilePath = ''f'', LineNum = 15, Content = ''a''\<rparr>,
          \<lparr>FilePath = ''f'', LineNum = 16, Content = ''b''\<rparr>,
          \<lparr>FilePath = ''f'', LineNum = 17, Content = ''c''\<rparr>]"
    by (simp add: ScanLines_eval parseDiff_eval)
  from C3_count_of_records [OF 4] show ?thesis using 4 by simp
qed

subsection \<open>Order of the line numbers\<close>

text \<open>
  Claim C7, as the code has it. \<open>parseDiff\<close> takes the counter from each hunk header
  as it comes: a second hunk of the same file that starts lower gives records of
  that file whose line numbers go down.
\<close>

theorem C7_strictly_increasing_counterexample:
  "parseDiff ''+++ b/f\<newline>@@ -1 +5 @@\<newline>+a\<newline>@@ -1 +2 @@\<newline>+b\<newline>'' =
     Inr [\<lparr>FilePath = ''f'', LineNum = 5, Content = ''a''\<rparr>,
          \<lparr>FilePath = ''f'', LineNum = 2, Content = ''b''\<rparr>] \<and>
   \<not> sint (5 :: go_int) < sint (2 :: go_int)"
  by (simp add: ScanLines_eval parseDiff_eval)

text \<open>
  Claim C7, amended. In a diff text that \<open>parseDiff\<close> accepts, the records emitted
  between a hunk header and the next hunk header have strictly increasing line numbers
  in the order they are emitted (whatever their file path), as long as the counter
  stays below \<open>2^63\<close>.
\<close>

theorem C7_increasing_within_hunk:
  assumes "ScanLines diffOutput = (pre @ hdr # block @ post, tooLong)"
    and "hunkHeader hdr = Some digits"
    and "\<forall>l\<in>set block. hunkHeader l = None"
    and "parseDiff diffOutput = Inr recs"
    and "digitsValue digits + length block < 2 ^ 63"
    and "i < j" and "j < length (filter is_added block)"
  shows "sint (LineNum (recs ! (length (filter is_added pre) + i))) <
         sint (LineNum (recs ! (length (filter is_added pre) + j)))"
proof -
  from parseDiff_Inr [OF assms(4) assms(1)] obtain st where
    st: "parse_lines initial_state (pre @ hdr # block @ post) = Inr st" "recs = lines st" by blast
  have "pre @ hdr # block @ post = (pre @ [hdr]) @ block @ post" by simp
  with st(1) obtain sB sC where b: "parse_lines initial_state (pre @ [hdr]) = Inr sB"
    and c: "parse_lines sB block = Inr sC" and d: "parse_lines sC post = Inr st"
    by (auto simp: parse_lines_append simp del: append_assoc append.simps split: sum.splits)
  have b': "parse_lines initial_state (pre @ hdr # []) = Inr sB" using b by simp
  from after_hunk [OF b' assms(2)]
  have cB: "currentLineNum sB = word_of_nat (digitsValue digits)"
    and lt: "digitsValue digits < 2 ^ 63"
    and lB: "length (lines sB) = length (filter is_added pre)"
    by (simp_all add: initial_state_def)
  have uB: "unat (currentLineNum sB) = digitsValue digits"
  proof -
    have "digitsValue digits < 2 ^ 64" using lt by simp
    then show ?thesis by (simp add: cB unat_of_nat)
  qed
  from parse_lines_lines [OF c] obtain new where new: "lines sC = lines sB @ new"
    "length new = length (filter is_added block)" by blast
  from parse_lines_lines [OF d] obtain more where more: "lines st = lines sC @ more" by blast
  have bound: "unat (currentLineNum sB) + length block < 2 ^ 63" using assms(5) uB by simp
  from block_increasing [OF c assms(3) new(1) bound]
  have s: "sorted_wrt (\<lambda>a b. unat (LineNum a) < unat (LineNum b)) new"
    and r: "\<forall>r\<in>set new. unat (LineNum r) < unat (currentLineNum sB) + length block"
    by simp_all
  have ij: "i < length new" "j < length new" using assms(6,7) new(2) by simp_all
  have ri: "recs ! (length (filter is_added pre) + i) = new ! i"
    and rj: "recs ! (length (filter is_added pre) + j) = new ! j"
    using ij by (simp_all add: st(2) more new(1) nth_append lB [symmetric])
  have "unat (LineNum (new ! i)) < unat (LineNum (new ! j))"
    using s assms(6) ij by (simp add: sorted_wrt_iff_nth_less)
  moreover have "unat (LineNum (new ! i)) < 2 ^ 63" "unat (LineNum (new ! j)) < 2 ^ 63"
    using r ij bound by (meson nth_mem less_trans)+
  ultimately have "int (unat (LineNum (new ! i))) < int (unat (LineNum (new ! j)))"
    and "sint (LineNum (new ! i)) = int (unat (LineNum (new ! i)))"
    and "sint (LineNum (new ! j)) = int (unat (LineNum (new ! j)))"
    by (simp_all only: sint_small of_nat_less_iff)
  then show ?thesis by (simp only: ri rj)
qed

theorem C7_increasing_within_hunk_witness:
  "ScanLines ''+++ b/f\<newline>@@ -10,0 +15,3 @@\<newline>+a\<newline>+b\<newline>+c\<newline>'' =
     ([''+++ b/f''] @ ''@@ -10,0 +15,3 @@'' # [''+a'', ''+b'', ''+c''] @ [], False) \<and>
   hunkHeader ''@@ -10,0 +15,3 @@'' = Some ''15'' \<and>
   digitsValue ''15'' + length [''+a'', ''+b'', ''+c''] < 2 ^ 63 \<and>
   sint (LineNum ([\<lparr>FilePath = ''f'', LineNum = 15, Content = ''a''\<rparr>,
          \<lparr>FilePath = ''f'', LineNum = 16, Content = ''b''\<rparr>,
          \<lparr>FilePath = ''f'', LineNum = 17, Content = ''c''\<rparr>] ! (0 + 0))) <
   sint (LineNum ([\<lparr>FilePath = ''f'', LineNum = 15, Content = ''a''\<rparr>,
          \<lparr>FilePath = ''f'', LineNum = 16, Content = ''b''\<rparr>,
          \<lparr>FilePath = ''f'', LineNum = 17, Content = ''c''\<rparr>] ! (0 + 2)))"
proof -
  let ?T = "''+++ b/f\<newline>@@ -10,0 +15,3 @@\<newline>+a\<newline>+b\<newline>+c\<newline>''"
  let ?recs = "[\<lparr>FilePath = ''f'', LineNum = 15, Content = ''a''\<rparr>,
          \<lparr>FilePath = ''f'', LineNum = 16, Content = ''b''\<rparr>,
          \<lparr>FilePath = ''f'', LineNum = (17::go_int), Content = ''c''\<rparr>]"
  have 1: "ScanLines ?T = ([''+++ b/f''] @ ''@@ -10,0 +15,3 @@'' # [''+a'', ''+b'', ''+c''] @ [], False)"
    by (simp add: ScanLines_eval)
  have 2: "hunkHeader ''@@ -10,0 +15,3 @@'' = Some ''15''"
    by (simp add: parseDiff_eval)
  have 3: "\<forall>l\<in>set [''+a'', ''+b'', ''+c'']. hunkHeader l = None"
    by (simp add: parseDiff_eval)
  have 4: "parseDiff ?T = Inr ?recs"
    by (simp add: ScanLines_eval parseDiff_eval)
  have 5: "digitsValue ''15'' + length [''+a'', ''+b'', ''+c''] < 2 ^ 63"
    by (simp add: digitsValue_def)
  have 6: "(0::nat) < 2" by simp
  have 7: "2 < length (filter is_added [''+a'', ''+b'', ''+c''])"
    by (simp add: is_added_def HasPrefix_def)
  have 8: "length (filter is_added [''+++ b/f'']) = 0"
    by (simp add: is_added_def HasPrefix_def)
  from C7_increasing_within_hunk [OF 1 2 3 4 5 6 7]
  have "sint (LineNum (?recs ! (0 + 0))) < sint (LineNum (?recs ! (0 + 2)))"
    unfolding 8 .
  then show ?thesis using 1 2 5 by (simp only: simp_thms)
qed

subsection \<open>Lines before any header\<close>

text \<open>
  Claim C10, as the code has it. The counter starts at 0 and context lines advance it
  too: an added line that follows a context line, before any header, gets line
  number 1, not 0.
\<close>

theorem C10_first_line_number_counterexample:
  "ScanLines '' x\<newline>+a'' = (['' x'', ''+a''], False) \<and>
   fileHeader '' x'' = None \<and> hunkHeader '' x'' = None \<and>
   fileHeader ''+a'' = None \<and> hunkHeader ''+a'' = None \<and>
   parseDiff '' x\<newline>+a'' = Inr [\<lparr>FilePath = [], LineNum = 1, Content = ''a''\<rparr>] \<and>
   sint (1 :: go_int) \<noteq> 0"
  by (simp add: ScanLines_eval parseDiff_eval)

text \<open>
  Claim C10, amended. Lines that begin with \<open>+\<close> but not with \<open>+++\<close> and stand before
  any file header and any hunk header cause no error and are emitted with the empty
  string as file path; the line number of each is the number of added and context
  lines before it, so they count up from 0, and the first one gets 0 when no
  context line stands before it.
\<close>

theorem C10_lines_before_any_header:
  assumes "ScanLines diffOutput = (pre @ post, tooLong)"
    and "\<forall>l\<in>set pre. fileHeader l = None \<and> hunkHeader l = None"
    and "j < length pre" and "is_added (pre ! j)"
  shows "(\<exists>st. parse_lines initial_state pre = Inr st) \<and>
         (\<forall>recs. parseDiff diffOutput = Inr recs \<longrightarrow>
            recs ! (length (filter is_added (take j pre))) =
              \<lparr>FilePath = [], LineNum = of_nat (length (filter advances (take j pre))),
               Content = drop 1 (pre ! j)\<rparr> \<and>
            (filter is_context (take j pre) = [] \<longrightarrow>
               LineNum (recs ! (length (filter is_added (take j pre)))) =
                 of_nat (length (filter is_added (take j pre)))))"
proof (intro conjI allI impI)
  show "\<exists>st. parse_lines initial_state pre = Inr st"
    using parse_lines_total [of pre initial_state] assms(2) by simp
next
  fix recs assume pd: "parseDiff diffOutput = Inr recs"
  from parseDiff_Inr [OF pd assms(1)] obtain st where
    st: "parse_lines initial_state (pre @ post) = Inr st" "recs = lines st" by blast
  have split: "pre @ post = take j pre @ (pre ! j) # (drop (Suc j) pre @ post)"
    using assms(3) by (metis append.assoc append_Cons id_take_nth_drop)
  from added_record_at [OF st(1) [unfolded split] assms(4)] obtain st1 where
    1: "parse_lines initial_state (take j pre) = Inr st1"
    and 2: "length (lines st1) = length (lines initial_state) + length (filter is_added (take j pre))"
    and 3: "lines st ! (length (lines st1)) =
       \<lparr>FilePath = currentFile st1, LineNum = currentLineNum st1, Content = drop 1 (pre ! j)\<rparr>"
    by blast
  have nh: "\<forall>l\<in>set (take j pre). hunkHeader l = None" and nf: "\<forall>l\<in>set (take j pre). fileHeader l = None"
    using assms(2) by (meson in_set_takeD)+
  have 4: "currentLineNum st1 = of_nat (length (filter advances (take j pre)))"
    using parse_lines_counter [OF 1 nh] by (simp add: initial_state_def)
  have 5: "currentFile st1 = []"
    using parse_lines_file [OF 1 nf] by (simp add: initial_state_def)
  show r: "recs ! (length (filter is_added (take j pre))) =
      \<lparr>FilePath = [], LineNum = of_nat (length (filter advances (take j pre))),
       Content = drop 1 (pre ! j)\<rparr>"
    using 2 3 4 5 by (simp add: st(2) initial_state_def)
  assume "filter is_context (take j pre) = []"
  then show "LineNum (recs ! (length (filter is_added (take j pre)))) =
                 of_nat (length (filter is_added (take j pre)))"
    using r by (simp add: filter_advances_no_context)
qed

theorem C10_lines_before_any_header_witness:
  "ScanLines ''+x\<newline> y\<newline>+z'' = ([''+x'', '' y'', ''+z''] @ [], False) \<and>
   list_all (\<lambda>l. fileHeader l = None \<and> hunkHeader l = None) [''+x'', '' y'', ''+z''] \<and>
   is_added ''+x'' \<and> is_added ''+z'' \<and>
   parseDiff ''+x\<newline> y\<newline>+z'' =
     Inr [\<lparr>FilePath = [], LineNum = 0, Content = ''x''\<rparr>,
          \<lparr>FilePath = [], LineNum = 2, Content = ''z''\<rparr>] \<and>
   [\<lparr>FilePath = [], LineNum = 0, Content = ''x''\<rparr>,
    \<lparr>FilePath = [], LineNum = 2, Content = ''z''\<rparr>] ! 1 =
     \<lparr>FilePath = [], LineNum = of_nat 2, Content = drop 1 ''+z''\<rparr>"
proof -
  let ?T = "''+x\<newline> y\<newline>+z''"
  let ?pre = "[''+x'', '' y'', ''+z'']"
  let ?recs = "[\<lparr>FilePath = [], LineNum = 0, Content = ''x''\<rparr>,
          \<lparr>FilePath = [], LineNum = (2::go_int), Content = ''z''\<rparr>]"
  have 1: "ScanLines ?T = (?pre @ [], False)" by (simp add: ScanLines_eval)
  have 2: "\<forall>l\<in>set ?pre. fileHeader l = None \<and> hunkHeader l = None"
    by (simp add: parseDiff_eval)
  have 3: "(2::nat) < length ?pre" by simp
  have 4: "is_added (?pre ! 2)" by (simp add: is_added_def HasPrefix_def)
  have 5: "parseDiff ?T = Inr ?recs" by (simp add: ScanLines_eval parseDiff_eval)
  have 6: "length (filter is_added (take 2 ?pre)) = 1" "length (filter advances (take 2 ?pre)) = 2"
    by (simp_all add: advances_def is_added_def is_context_def HasPrefix_def)
  have 7: "is_added ''+x'' \<and> is_added ''+z''" by (simp add: is_added_def HasPrefix_def)
  from C10_lines_before_any_header [OF 1 2 3 4] 5
  have "?recs ! 1 = \<lparr>FilePath = [], LineNum = of_nat 2, Content = drop 1 ''+z''\<rparr>"
    unfolding 6 by simp
  then show ?thesis using 1 2 5 7 by (simp only: list_all_iff simp_thms)
qed

section \<open>Evaluating the model on concrete texts\<close>

text \<open>
  Rewrite rules that run the definitions on a given text. The recursive equations of
  \<open>globToRegex_loop\<close>, \<open>skipClass\<close> and \<open>allMatches\<close> are safe for the simplifier as long
  as it decides each condition before it enters a branch, which the weak congruence
  rules of \<open>if\<close> and \<open>case\<close> see to.
\<close>

lemmas glob_eval = globToRegex_def globToRegex_loop.simps classEnd_def skipClass.simps
  string_of_byte_def HasPrefix_def BS_def SQ_def

lemmas lex_eval = lex_one_def lex_class_def class_item_def named_class_def posix_class_def
  class_char_def perl_class_def
  escape_char_def isAlnum_def parseRepeat_def parseInt_def isDigit_def digitsValue_def
  decodeRune_def RuneError_def

lemma pow_numeral: "pow x (numeral k) = Cat x (pow x (pred_numeral k))"
  by (simp add: numeral_eq_Suc)

lemma opt_nest_numeral: "opt_nest x (numeral k) = Alt (Cat x (opt_nest x (pred_numeral k))) Empty"
  by (simp add: numeral_eq_Suc)

lemmas parse_eval = mk_class_def fold_range_def mk_alt_def repeat_re_def pow_numeral opt_nest_numeral

lemmas compile_eval = Compile_def lex_eval parse_eval

lemmas find_eval = MatchString_def FindAllStringIndex_def FindAllStringSubmatch_def allMatches.simps
  in_class_def decodeRune_def RuneError_def

section \<open>Properties of the ignore matcher\<close>

lemma ShouldIgnore_loop_iff:
  "ShouldIgnore_loop rs p \<longleftrightarrow> (\<exists>r\<in>set rs. MatchString r p \<or> MatchString r (Base p))"
  by (induction rs) auto

lemma ShouldIgnore_iff:
  "ShouldIgnore ic filePath \<longleftrightarrow>
     (\<exists>r\<in>set (regexes ic). MatchString r (ToSlash filePath) \<or> MatchString r (Base (ToSlash filePath)))"
  by (simp add: ShouldIgnore_def ShouldIgnore_loop_iff)

lemma AddPattern_error:
  assumes "fst (AddPattern ic pattern) \<noteq> None"
  shows "snd (AddPattern ic pattern) = ic"
  using assms by (auto simp: AddPattern_def split: sum.splits)

lemma AddPattern_ok:
  assumes "fst (AddPattern ic pattern) = None"
  shows "\<exists>regex r. globToRegex pattern = Inr regex \<and> Compile regex = Inr r \<and>
           snd (AddPattern ic pattern) = ic\<lparr>patterns := patterns ic @ [pattern], regexes := regexes ic @ [r]\<rparr>"
  using assms by (auto simp: AddPattern_def split: sum.splits)

text \<open>
  Claim C9. \<open>AddPattern\<close> is atomic on error: whenever it returns an error, the
  checker afterwards is the checker before, with the same pattern list and the same
  list of compiled patterns, so every later \<open>ShouldIgnore\<close> decision is what it was.
  The witness rejects one pattern in \<open>globToRegex\<close> (an unterminated class) and one in
  \<open>regexp.Compile\<close> (a class with a descending range).
\<close>

theorem C9_AddPattern_atomic_on_error:
  assumes "fst (AddPattern ic pattern) \<noteq> None"
  shows "snd (AddPattern ic pattern) = ic \<and>
         patterns (snd (AddPattern ic pattern)) = patterns ic \<and>
         regexes (snd (AddPattern ic pattern)) = regexes ic \<and>
         (\<forall>filePath. ShouldIgnore (snd (AddPattern ic pattern)) filePath = ShouldIgnore ic filePath)"
  using AddPattern_error [OF assms] by simp

theorem C9_AddPattern_atomic_on_error_witness:
  \<open>fst (AddPattern NewIgnoreChecker ''[abc'') = Some ErrUnterminatedClass \<and>
   snd (AddPattern NewIgnoreChecker ''[abc'') = NewIgnoreChecker \<and>
   fst (AddPattern NewIgnoreChecker ''[z-a]'') = Some ErrCompile \<and>
   snd (AddPattern NewIgnoreChecker ''[z-a]'') = NewIgnoreChecker\<close>
proof -
  have 1: "fst (AddPattern NewIgnoreChecker ''[abc'') = Some ErrUnterminatedClass"
    by (simp add: AddPattern_def glob_eval)
  have 2: "fst (AddPattern NewIgnoreChecker ''[z-a]'') = Some ErrCompile"
    by (simp add: AddPattern_def glob_eval compile_eval)
  from 1 have "fst (AddPattern NewIgnoreChecker ''[abc'') \<noteq> None" by simp
  from C9_AddPattern_atomic_on_error [OF this]
  have 3: "snd (AddPattern NewIgnoreChecker ''[abc'') = NewIgnoreChecker" by simp
  from 2 have "fst (AddPattern NewIgnoreChecker ''[z-a]'') \<noteq> None" by simp
  from C9_AddPattern_atomic_on_error [OF this]
  have 4: "snd (AddPattern NewIgnoreChecker ''[z-a]'') = NewIgnoreChecker" by simp
  show ?thesis using 1 2 3 4 by simp
qed

subsection \<open>A class that \<open>regexp\<close> ends elsewhere\<close>

lemma bracket_glob_regex:
  \<open>globToRegex (''['' @ BS @ ''][]|]'') = Inr (''^['' @ BS @ ''][]|]$'')\<close>
  by (simp add: glob_eval)

lemma bracket_glob_compile:
  \<open>Compile (''^['' @ BS @ ''][]|]$'') =
     Inr (Alt (Cat Bol (Cls False [(93, 93), (91, 91)])) (Cat (Cls False [(93, 93)]) Eol))\<close>
  by (simp add: BS_def compile_eval)

text \<open>
  Claim C4, at the glob \<open>[\][]|]\<close>. \<open>globToRegex\<close> ends a class at the first \<open>]\<close> after
  the first character of the class and copies the text of the class unchanged, while
  \<open>regexp\<close> reads \<open>\]\<close> inside a class as an escaped \<open>]\<close>. The text \<open>^[\][]|]$\<close> returned
  for this glob is therefore, for \<open>regexp\<close>, the alternation of \<open>^[\][]\<close> and \<open>]$\<close>: the
  bar, which \<open>globToRegex\<close> escapes outside a class, divides the pattern, and neither
  side is anchored at both ends. On the path \<open>[x\<close> the compiled pattern matches the
  first byte alone (the only match that starts at 0 ends at 1, not at 2), and
  \<open>ShouldIgnore\<close> answers true. The second half of the claim, that \<open>ShouldIgnore\<close> is
  true exactly when some loaded pattern matches the normalized path or its last
  element, is \<open>ShouldIgnore_iff\<close> above.
\<close>

theorem C4_class_text_breaks_anchoring:
  \<open>globToRegex (''['' @ BS @ ''][]|]'') = Inr (''^['' @ BS @ ''][]|]$'') \<and>
   AddPattern NewIgnoreChecker (''['' @ BS @ ''][]|]'') =
     (None, \<lparr>patterns = [''['' @ BS @ ''][]|]''],
             regexes = [Alt (Cat Bol (Cls False [(93, 93), (91, 91)]))
                            (Cat (Cls False [(93, 93)]) Eol)]\<rparr>) \<and>
   map fst (ends (Alt (Cat Bol (Cls False [(93, 93), (91, 91)])) (Cat (Cls False [(93, 93)]) Eol))
              (0, ''[x'')) = [1] \<and>
   MatchString (Alt (Cat Bol (Cls False [(93, 93), (91, 91)])) (Cat (Cls False [(93, 93)]) Eol)) ''[x'' \<and>
   ShouldIgnore (snd (AddPattern NewIgnoreChecker (''['' @ BS @ ''][]|]''))) ''[x''\<close>
proof -
  let ?r = "Alt (Cat Bol (Cls False [(93, 93), (91, 91)])) (Cat (Cls False [(93, 93)]) Eol)"
  have a: \<open>AddPattern NewIgnoreChecker (''['' @ BS @ ''][]|]'') =
     (None, \<lparr>patterns = [''['' @ BS @ ''][]|]''], regexes = [?r]\<rparr>)\<close>
    using bracket_glob_regex bracket_glob_compile by (simp add: AddPattern_def NewIgnoreChecker_def)
  have e: "map fst (ends ?r (0, ''[x'')) = [1]"
    by (simp add: in_class_def decodeRune_def RuneError_def)
  have m: "MatchString ?r ''[x''"
    by (simp add: find_eval cong: option.case_cong_weak list.case_cong_weak)
  have s: \<open>ShouldIgnore (snd (AddPattern NewIgnoreChecker (''['' @ BS @ ''][]|]''))) ''[x''\<close>
    using a m by (simp add: ShouldIgnore_def ToSlash_def Separator_def)
  show ?thesis using bracket_glob_regex a e m s by simp
qed

section \<open>Properties of the scan engine\<close>

lemma allMatches_bounds:
  assumes "(a, b) \<in> set (allMatches r s pos prev)"
  shows "a \<le> b \<and> b \<le> length s"
  using assms
proof (induction r s pos prev rule: allMatches.induct)
  case (1 r s pos prevMatchEnd)
  show ?case
  proof (cases "length s < pos")
    case True
    then show ?thesis using "1.prems" by (simp add: allMatches.simps)
  next
    case le: False
    show ?thesis
    proof (cases "search r pos (drop pos s) 0")
      case None
      then show ?thesis using "1.prems" le by (simp add: allMatches.simps)
    next
      case (Some x)
      obtain a' b' where x: "x = (a', b')" by (cases x)
      from search_bounds [OF Some [unfolded x]] le
      have bnd: "a' \<le> b'" "b' \<le> length s" by simp_all
      show ?thesis
      proof (cases "b' = pos")
        case True
        from "1.prems" le Some x True
        consider "(a, b) = (a', b')"
          | "(a, b) \<in> set (allMatches r s
               (if pos < length s then pos + snd (decodeRune (drop pos s)) else length s + 1) (Some b'))"
          by (subst (asm) allMatches.simps) (auto split: if_splits)
        then show ?thesis
        proof cases
          case 1
          then show ?thesis using bnd by simp
        next
          case 2
          then show ?thesis using "1.IH"(1) [OF le Some x [symmetric] True] by simp
        qed
      next
        case False
        from "1.prems" le Some x False
        consider "(a, b) = (a', b')" | "(a, b) \<in> set (allMatches r s b' (Some b'))"
          by (subst (asm) allMatches.simps) (auto split: if_splits)
        then show ?thesis
        proof cases
          case 1
          then show ?thesis using bnd by simp
        next
          case 2
          then show ?thesis using "1.IH"(2) [OF le Some x [symmetric] False] by simp
        qed
      qed
    qed
  qed
qed

lemma rule_findings_shape:
  assumes "f \<in> set (rule_findings rule filePath lineNum content)"
  shows "\<exists>a b. (a, b) \<in> set (allMatches (Pattern rule) content 0 None) \<and>
           Finding.StartPos f = a \<and> Finding.EndPos f = b \<and>
           Finding.Match f = take (b - a) (drop a content) \<and>
           Finding.Content f = content \<and> Finding.RuleID f = ID rule \<and>
           Finding.FilePath f = filePath \<and> Finding.LineNum f = lineNum"
proof -
  let ?ms = "allMatches (Pattern rule) content 0 None"
  from assms obtain i where i: "i < length ?ms"
    and f: "f = \<lparr>Finding.RuleID = ID rule, Finding.RuleName = Name rule, Finding.FilePath = filePath,
                 Finding.LineNum = lineNum, Finding.Content = content,
                 Finding.Match = take (snd (?ms ! i) - fst (?ms ! i)) (drop (fst (?ms ! i)) content),
                 Finding.StartPos = fst (?ms ! i), Finding.EndPos = snd (?ms ! i),
                 Finding.Description = SecretRule.Description rule,
                 Finding.Advice = SecretRule.Advice rule\<rparr>"
    by (auto simp: rule_findings_def Let_def FindAllStringSubmatch_def FindAllStringIndex_def
        in_set_zip split: if_splits prod.splits)
  have "(fst (?ms ! i), snd (?ms ! i)) \<in> set ?ms" using i by simp
  then show ?thesis using f by (intro exI [of _ "fst (?ms ! i)"] exI [of _ "snd (?ms ! i)"]) simp
qed

text \<open>
  Claim C6. Every finding that \<open>ScanLine\<close> produces has
  \<open>0 \<le> StartPos \<le> EndPos \<le> len(Content)\<close>, and its \<open>Match\<close> is
  \<open>Content[StartPos:EndPos]\<close>. This holds for every rule list, not only the default
  one.
\<close>

theorem C6_finding_positions:
  assumes "f \<in> set (ScanLine s filePath lineNum content)"
  shows "0 \<le> Finding.StartPos f \<and> Finding.StartPos f \<le> Finding.EndPos f \<and>
         Finding.EndPos f \<le> length (Finding.Content f) \<and>
         Finding.Match f =
           take (Finding.EndPos f - Finding.StartPos f) (drop (Finding.StartPos f) (Finding.Content f))"
proof -
  from assms obtain rule where "f \<in> set (rule_findings rule filePath lineNum content)"
    by (auto simp: ScanLine_def)
  from rule_findings_shape [OF this] obtain a b where
    ab: "(a, b) \<in> set (allMatches (Pattern rule) content 0 None)"
    and f: "Finding.StartPos f = a" "Finding.EndPos f = b"
      "Finding.Match f = take (b - a) (drop a content)" "Finding.Content f = content"
    by blast
  from allMatches_bounds [OF ab] show ?thesis using f by simp
qed

theorem C6_finding_positions_witness:
  \<open>ScanLine example_scanner ''f'' 3 ''a k12 k'' =
     [\<lparr>Finding.RuleID = ''KEY'', Finding.RuleName = ''Key'', Finding.FilePath = ''f'',
       Finding.LineNum = 3, Finding.Content = ''a k12 k'', Finding.Match = ''k12'',
       Finding.StartPos = 2, Finding.EndPos = 5, Finding.Description = [], Finding.Advice = []\<rparr>,
      \<lparr>Finding.RuleID = ''KEY'', Finding.RuleName = ''Key'', Finding.FilePath = ''f'',
       Finding.LineNum = 3, Finding.Content = ''a k12 k'', Finding.Match = ''k'',
       Finding.StartPos = 6, Finding.EndPos = 7, Finding.Description = [], Finding.Advice = []\<rparr>] \<and>
   (2::nat) \<le> 5 \<and> 5 \<le> length ''a k12 k'' \<and> ''k12'' = take (5 - 2) (drop 2 ''a k12 k'')\<close>
proof -
  let ?f = "\<lparr>Finding.RuleID = ''KEY'', Finding.RuleName = ''Key'', Finding.FilePath = ''f'',
       Finding.LineNum = 3, Finding.Content = ''a k12 k'', Finding.Match = ''k12'',
       Finding.StartPos = 2, Finding.EndPos = 5, Finding.Description = [], Finding.Advice = []\<rparr>"
  have 1: "ScanLine example_scanner ''f'' 3 ''a k12 k'' =
     [?f,
      \<lparr>Finding.RuleID = ''KEY'', Finding.RuleName = ''Key'', Finding.FilePath = ''f'',
       Finding.LineNum = 3, Finding.Content = ''a k12 k'', Finding.Match = ''k'',
       Finding.StartPos = 6, Finding.EndPos = 7, Finding.Description = [], Finding.Advice = []\<rparr>]"
    by (simp add: example_scanner_def ScanLine_def rule_findings_def find_eval
        cong: option.case_cong_weak list.case_cong_weak)
  then have "?f \<in> set (ScanLine example_scanner ''f'' 3 ''a k12 k'')" by simp
  from C6_finding_positions [OF this] 1 show ?thesis by simp
qed

subsection \<open>The default rules on one line\<close>

text \<open>
  \<open>ScanLine\<close> on the scanner of \<open>NewSecretScanner\<close> is the concatenation, in the order of
  the table, of what each of the ten entries contributes.
\<close>

lemma ScanLine_append_rules:
  "ScanLine (s\<lparr>rules := rules s @ rs\<rparr>) filePath lineNum content =
     ScanLine s filePath lineNum content @
     concat (map (\<lambda>rule. rule_findings rule filePath lineNum content) rs)"
  by (simp add: ScanLine_def)

lemma ScanLine_loadRules:
  "ScanLine (loadRules srcs s) filePath lineNum content =
     ScanLine s filePath lineNum content @
     concat (map (\<lambda>src. source_findings src filePath lineNum content) srcs)"
proof (induction srcs arbitrary: s)
  case Nil
  then show ?case by simp
next
  case (Cons src srcs)
  obtain rid rname pattern description advice where
    src: "src = (rid, rname, pattern, description, advice)" by (cases src)
  show ?case
  proof (cases "Compile pattern")
    case (Inl err)
    then show ?thesis by (simp add: src Cons.IH source_findings_def)
  next
    case (Inr compiled)
    then show ?thesis
      by (simp add: src Cons.IH source_findings_def ScanLine_append_rules)
  qed
qed

lemma default_rules_nth:
  "default_rules = map (\<lambda>k. default_rules ! k) [0..<10]"
proof -
  have "length default_rules = 10" by (simp add: default_rules_def)
  then show ?thesis by (metis map_nth)
qed

lemma ScanLine_default:
  "ScanLine NewSecretScanner filePath lineNum content =
     concat (map (\<lambda>k. source_findings (default_rules ! k) filePath lineNum content) [0..<10])"
proof -
  have "map (\<lambda>src. source_findings src filePath lineNum content) default_rules =
        map (\<lambda>src. source_findings src filePath lineNum content) (map (\<lambda>k. default_rules ! k) [0..<10])"
    using default_rules_nth by simp
  also have "\<dots> = map (\<lambda>k. source_findings (default_rules ! k) filePath lineNum content) [0..<10]"
    by (simp add: comp_def del: upt_Suc)
  finally have m: "map (\<lambda>src. source_findings src filePath lineNum content) default_rules =
      map (\<lambda>k. source_findings (default_rules ! k) filePath lineNum content) [0..<10]" .
  have "ScanLine NewSecretScanner filePath lineNum content =
      ScanLine \<lparr>rules = []\<rparr> filePath lineNum content @
      concat (map (\<lambda>src. source_findings src filePath lineNum content) default_rules)"
    by (simp only: NewSecretScanner_def loadDefaultRules_def ScanLine_loadRules)
  also have "ScanLine \<lparr>rules = []\<rparr> filePath lineNum content = []" by (simp add: ScanLine_def)
  finally show ?thesis by (simp only: m append_Nil)
qed


lemmas source_eval = source_findings_def default_rules_def BS_def SQ_def compile_eval
lemmas findings_eval = rule_findings_def find_eval

lemma openai_rule_on_line:
  \<open>source_findings (default_rules ! 0) filePath lineNum ''API_KEY=sk-abc123def456ghi789jklmno'' =
     [\<lparr>Finding.RuleID = ''OPENAI_API_KEY'', Finding.RuleName = ''OpenAI API Key'',
       Finding.FilePath = filePath, Finding.LineNum = lineNum,
       Finding.Content = ''API_KEY=sk-abc123def456ghi789jklmno'',
       Finding.Match = ''sk-abc123def456ghi789jklmno'', Finding.StartPos = 8, Finding.EndPos = 35,
       Finding.Description = ''OpenAI API key detected'',
       Finding.Advice = ''Move this to an environment variable (.env file) and add .env to .gitignore''\<rparr>]\<close>
  apply (simp add: source_eval)
  apply (simp add: findings_eval cong: option.case_cong_weak list.case_cong_weak)
  done


lemma github_pat_rule_on_line:
  \<open>source_findings (default_rules ! 1) filePath lineNum ''API_KEY=sk-abc123def456ghi789jklmno'' = []\<close>
  apply (simp add: source_eval)
  apply (simp add: findings_eval cong: option.case_cong_weak list.case_cong_weak)
  done

lemma aws_access_key_rule_on_line:
  \<open>source_findings (default_rules ! 2) filePath lineNum ''API_KEY=sk-abc123def456ghi789jklmno'' = []\<close>
  apply (simp add: source_eval)
  apply (simp add: findings_eval cong: option.case_cong_weak list.case_cong_weak)
  done

lemma aws_secret_key_rule_on_line:
  \<open>source_findings (default_rules ! 3) filePath lineNum ''API_KEY=sk-abc123def456ghi789jklmno'' = []\<close>
  apply (simp add: source_eval)
  apply (simp add: findings_eval cong: option.case_cong_weak list.case_cong_weak)
  done

lemma stripe_live_pk_rule_on_line:
  \<open>source_findings (default_rules ! 4) filePath lineNum ''API_KEY=sk-abc123def456ghi789jklmno'' = []\<close>
  apply (simp add: source_eval)
  apply (simp add: findings_eval cong: option.case_cong_weak list.case_cong_weak)
  done

lemma stripe_live_sk_rule_on_line:
  \<open>source_findings (default_rules ! 5) filePath lineNum ''API_KEY=sk-abc123def456ghi789jklmno'' = []\<close>
  apply (simp add: source_eval)
  apply (simp add: findings_eval cong: option.case_cong_weak list.case_cong_weak)
  done

lemma slack_token_rule_on_line:
  \<open>source_findings (default_rules ! 6) filePath lineNum ''API_KEY=sk-abc123def456ghi789jklmno'' = []\<close>
  apply (simp add: source_eval)
  apply (simp add: findings_eval cong: option.case_cong_weak list.case_cong_weak)
  done

lemma jwt_token_rule_on_line:
  \<open>source_findings (default_rules ! 7) filePath lineNum ''API_KEY=sk-abc123def456ghi789jklmno'' = []\<close>
  apply (simp add: source_eval)
  apply (simp add: findings_eval cong: option.case_cong_weak list.case_cong_weak)
  done

lemma generic_api_key_rule_on_line:
  \<open>source_findings (default_rules ! 8) filePath lineNum ''API_KEY=sk-abc123def456ghi789jklmno'' = []\<close>
  apply (simp add: source_eval)
  apply (simp add: findings_eval cong: option.case_cong_weak list.case_cong_weak)
  done

lemma private_key_rule_on_line:
  \<open>source_findings (default_rules ! 9) filePath lineNum ''API_KEY=sk-abc123def456ghi789jklmno'' = []\<close>
  apply (simp add: source_eval)
  apply (simp add: findings_eval cong: option.case_cong_weak list.case_cong_weak)
  done


lemma upt_10: "[0..<10] = [0, 1, 2, 3, 4, 5, 6, 7, 8, 9 :: nat]"
  by (simp add: upt_rec)

lemma loadRules_ids:
  "map ID (rules (loadRules srcs s)) =
     map ID (rules s) @
     map fst (filter (\<lambda>src. case src of (rid, rname, pattern, description, advice) \<Rightarrow>
                                  \<not> isl (Compile pattern)) srcs)"
proof (induction srcs arbitrary: s)
  case Nil
  then show ?case by simp
next
  case (Cons src srcs)
  obtain rid rname pattern description advice where
    src: "src = (rid, rname, pattern, description, advice)" by (cases src)
  show ?case
    by (cases "Compile pattern") (simp_all add: src Cons.IH)
qed

lemma default_rules_compile:
  \<open>filter (\<lambda>src. case src of (rid, rname, pattern, description, advice) \<Rightarrow>
                                  \<not> isl (Compile pattern)) default_rules = default_rules\<close>
  by (simp add: default_rules_def BS_def SQ_def compile_eval)

text \<open>
  Claim C8. Scanning the line \<open>API_KEY=sk-abc123def456ghi789jklmno\<close> with the scanner of
  \<open>NewSecretScanner\<close> gives exactly one finding, whatever the file path and the line
  number: that of the rule \<open>OPENAI_API_KEY\<close>, for the text \<open>sk-abc123def456ghi789jklmno\<close>
  at bytes 8 to 35. All ten patterns of the table compile, so the nine other rules,
  \<open>GENERIC_API_KEY\<close> among them, are loaded and find nothing on that line.
\<close>

theorem C8_one_finding_OPENAI:
  \<open>ScanLine NewSecretScanner filePath lineNum ''API_KEY=sk-abc123def456ghi789jklmno'' =
     [\<lparr>Finding.RuleID = ''OPENAI_API_KEY'', Finding.RuleName = ''OpenAI API Key'',
       Finding.FilePath = filePath, Finding.LineNum = lineNum,
       Finding.Content = ''API_KEY=sk-abc123def456ghi789jklmno'',
       Finding.Match = ''sk-abc123def456ghi789jklmno'', Finding.StartPos = 8, Finding.EndPos = 35,
       Finding.Description = ''OpenAI API key detected'',
       Finding.Advice = ''Move this to an environment variable (.env file) and add .env to .gitignore''\<rparr>] \<and>
   map ID (rules NewSecretScanner) =
     [''OPENAI_API_KEY'', ''GITHUB_PAT'', ''AWS_ACCESS_KEY'', ''AWS_SECRET_KEY'', ''STRIPE_LIVE_PK'',
      ''STRIPE_LIVE_SK'', ''SLACK_TOKEN'', ''JWT_TOKEN'', ''GENERIC_API_KEY'', ''PRIVATE_KEY'']\<close>
proof
  show \<open>ScanLine NewSecretScanner filePath lineNum ''API_KEY=sk-abc123def456ghi789jklmno'' =
     [\<lparr>Finding.RuleID = ''OPENAI_API_KEY'', Finding.RuleName = ''OpenAI API Key'',
       Finding.FilePath = filePath, Finding.LineNum = lineNum,
       Finding.Content = ''API_KEY=sk-abc123def456ghi789jklmno'',
       Finding.Match = ''sk-abc123def456ghi789jklmno'', Finding.StartPos = 8, Finding.EndPos = 35,
       Finding.Description = ''OpenAI API key detected'',
       Finding.Advice = ''Move this to an environment variable (.env file) and add .env to .gitignore''\<rparr>]\<close>
    by (simp only: ScanLine_default upt_10 list.map concat.simps append_Nil append_Nil2
          openai_rule_on_line github_pat_rule_on_line aws_access_key_rule_on_line
          aws_secret_key_rule_on_line stripe_live_pk_rule_on_line stripe_live_sk_rule_on_line
          slack_token_rule_on_line jwt_token_rule_on_line generic_api_key_rule_on_line
          private_key_rule_on_line)
  have \<open>map ID (rules NewSecretScanner) = map fst default_rules\<close>
    by (simp only: NewSecretScanner_def loadDefaultRules_def loadRules_ids default_rules_compile)
       simp
  then show \<open>map ID (rules NewSecretScanner) =
     [''OPENAI_API_KEY'', ''GITHUB_PAT'', ''AWS_ACCESS_KEY'', ''AWS_SECRET_KEY'', ''STRIPE_LIVE_PK'',
      ''STRIPE_LIVE_SK'', ''SLACK_TOKEN'', ''JWT_TOKEN'', ''GENERIC_API_KEY'', ''PRIVATE_KEY'']\<close>
    by (simp add: default_rules_def)
qed

end
